theory Spec2Isabelle
  imports Complex_Main
begin

section \<open>Python numbers\<close>

text \<open>
  Prices in \<^verbatim>\<open>cinema.py\<close> are Python numbers: the default base price \<^verbatim>\<open>10\<close> and the
  price \<^verbatim>\<open>0\<close> of an unreserved seat are unbounded integers, and every discounted price is
  the result of a multiplication by the float literal \<^verbatim>\<open>0.8\<close> or \<^verbatim>\<open>0.7\<close>, an IEEE 754
  binary64 value. A finite float is kept as sign, significand and exponent, standing for
  \<open>(-1)\<^sup>s * m * 2\<^sup>e\<close>, in the unique form of the binary64 encoding: \<open>2\<^sup>5\<^sup>2 \<le> m < 2\<^sup>5\<^sup>3\<close> and
  \<open>-1074 \<le> e \<le> 971\<close> for a normal number, \<open>m < 2\<^sup>5\<^sup>2\<close> and \<open>e = -1074\<close> for a subnormal
  number or a zero.
\<close>

datatype float64 = Finite bool int int | Infinite bool | NaN

datatype pynum = PInt int | PFloat float64

datatype error =
    InvalidSeatNumber    \<comment> \<open>ValueError: The seat number must be a positive integer.\<close>
  | InvalidSeatRow       \<comment> \<open>ValueError: The seat row must be a positive integer.\<close>
  | InvalidSeatsPerRow   \<comment> \<open>ValueError: The number of seats in each row must be a positive integer.\<close>
  | InvalidRows          \<comment> \<open>ValueError: The total number of rows must be a positive integer.\<close>
  | SeatNotFound         \<comment> \<open>ValueError: The seat does not exist.\<close>
  | AlreadyReserved      \<comment> \<open>ValueError: The seat is already reserved.\<close>
  | NotReserved          \<comment> \<open>ValueError: The seat is not reserved.\<close>
  | DuplicateSeat        \<comment> \<open>ValueError: The seat is already registered in the hall.\<close>
  | RowOutOfRange int int
      \<comment> \<open>ValueError: The row number is greater than the total number of rows ...;
          carries the first and the last row of the hall, which the message prints\<close>
  | NonSequentialSeat int
      \<comment> \<open>ValueError: The seat number is not the next in the row ...;
          carries the next available seat number, which the message prints\<close>
  | OverflowError        \<comment> \<open>OverflowError: int too large to convert to float\<close>
  | DigitLimit
      \<comment> \<open>ValueError: Exceeds the limit (4300 digits) for integer string conversion\<close>

text \<open>The number of binary digits of a positive integer.\<close>

function bit_length :: "int \<Rightarrow> int" where
  "bit_length n = (if n \<le> 0 then 0 else 1 + bit_length (n div 2))"
  by pat_completeness auto
termination
  by (relation "measure nat") auto

declare bit_length.simps [simp del]

text \<open>
  Rounding of the exact value \<open>(-1)\<^sup>s * M * 2\<^sup>E\<close> to binary64, to nearest with ties to the even
  significand, with gradual underflow and with overflow to infinity.
\<close>

definition overflow_check :: "bool \<Rightarrow> int \<Rightarrow> int \<Rightarrow> float64" where
  "overflow_check s m e = (if e > 971 then Infinite s else Finite s m e)"

definition round64 :: "bool \<Rightarrow> int \<Rightarrow> int \<Rightarrow> float64" where
  "round64 s M E =
     (if M \<le> 0 then Finite s 0 (-1074)
      else
        let e = max (bit_length M + E - 53) (-1074) in
        if e \<le> E then overflow_check s (M * 2 ^ nat (E - e)) e
        else
          let d = nat (e - E);
              q = M div 2 ^ d;
              r = M mod 2 ^ d;
              m = (if 2 * r > 2 ^ d \<or> (2 * r = 2 ^ d \<and> odd q) then q + 1 else q)
          in if m = 2 ^ 53 then overflow_check s (2 ^ 52) (e + 1)
             else overflow_check s m e)"

fun fmul :: "float64 \<Rightarrow> float64 \<Rightarrow> float64" where
  "fmul NaN y = NaN"
| "fmul x NaN = NaN"
| "fmul (Infinite s) (Infinite t) = Infinite (s \<noteq> t)"
| "fmul (Infinite s) (Finite t m e) = (if m = 0 then NaN else Infinite (s \<noteq> t))"
| "fmul (Finite s m e) (Infinite t) = (if m = 0 then NaN else Infinite (s \<noteq> t))"
| "fmul (Finite s m e) (Finite t n f) = round64 (s \<noteq> t) (m * n) (e + f)"

text \<open>
  The conversion of an integer to a float, which Python applies to the integer operand of
  a mixed multiplication and to an integer formatted with \<^verbatim>\<open>.2f\<close>. It rounds to nearest, and
  raises OverflowError when the rounded value is beyond the largest float.
\<close>

definition float_of_int :: "int \<Rightarrow> error + float64" where
  "float_of_int n =
     (case round64 (n < 0) \<bar>n\<bar> 0 of
        Infinite s \<Rightarrow> Inl OverflowError
      | x \<Rightarrow> Inr x)"

definition to_float :: "pynum \<Rightarrow> error + float64" where
  "to_float x = (case x of PInt n \<Rightarrow> float_of_int n | PFloat f \<Rightarrow> Inr f)"

text \<open>\<^verbatim>\<open>x * c\<close> for a number \<open>x\<close> and a float \<open>c\<close>: the result is always a float.\<close>

definition mul_float :: "pynum \<Rightarrow> float64 \<Rightarrow> error + pynum" where
  "mul_float x c =
     (case to_float x of
        Inl err \<Rightarrow> Inl err
      | Inr f \<Rightarrow> Inr (PFloat (fmul f c)))"

text \<open>The float literals \<^verbatim>\<open>0.8\<close> and \<^verbatim>\<open>0.7\<close>: the binary64 values nearest to 4/5 and 7/10.\<close>

definition lit_0_8 :: float64 where
  "lit_0_8 = Finite False 7205759403792794 (-53)"

definition lit_0_7 :: float64 where
  "lit_0_7 = Finite False 6305039478318694 (-53)"

text \<open>The exact value of a finite float, and of a number.\<close>

definition float_value :: "float64 \<Rightarrow> rat option" where
  "float_value x =
     (case x of
        Finite s m e \<Rightarrow>
          Some ((if s then -1 else 1) * of_int m *
                (if e \<ge> 0 then 2 ^ nat e else 1 / 2 ^ nat (- e)))
      | _ \<Rightarrow> None)"

definition num_value :: "pynum \<Rightarrow> rat option" where
  "num_value x = (case x of PInt n \<Rightarrow> Some (of_int n) | PFloat f \<Rightarrow> float_value f)"

section \<open>Text\<close>

text \<open>
  Python strings are modelled as byte strings in UTF-8, so that the euro sign of the
  messages is three bytes. \<open>decimal\<close> is the decimal text of an integer.
\<close>

definition euro :: string where
  "euro = [CHR 0xE2, CHR 0x82, CHR 0xAC]"

definition digit :: "int \<Rightarrow> char" where
  "digit d = ''0123456789'' ! nat d"

function digits :: "int \<Rightarrow> string" where
  "digits n = (if n < 10 then [digit n] else digits (n div 10) @ [digit (n mod 10)])"
  by pat_completeness auto
termination
  by (relation "measure nat") auto

declare digits.simps [simp del]

definition decimal :: "int \<Rightarrow> string" where
  "decimal n = (if n < 0 then ''-'' @ digits (- n) else digits n)"

text \<open>
  \<^verbatim>\<open>str\<close> on an integer, as an f-string applies it: the interpreter refuses, with its
  default setting, an integer of more than 4300 digits, that is of magnitude \<open>10\<^sup>4\<^sup>3\<^sup>0\<^sup>0\<close> or
  more.
\<close>

definition max_str_digits :: nat where
  "max_str_digits = 4300"

definition str_int :: "int \<Rightarrow> error + string" where
  "str_int n = (if \<bar>n\<bar> \<ge> 10 ^ max_str_digits then Inl DigitLimit else Inr (decimal n))"

text \<open>
  \<^verbatim>\<open>str\<close> on a number. The shortest decimal text that Python prints for a float is not
  computed here: the function \<open>float_repr\<close> that gives it is a parameter.
\<close>

definition str_num :: "(float64 \<Rightarrow> string) \<Rightarrow> pynum \<Rightarrow> error + string" where
  "str_num float_repr x = (case x of PInt n \<Rightarrow> str_int n | PFloat f \<Rightarrow> Inr (float_repr f))"

text \<open>
  The format \<^verbatim>\<open>.2f\<close>: the exact value is rounded to the nearest multiple of 1/100, ties to
  even, and printed with two decimals; an integer is converted to a float first.
\<close>

definition round_scaled :: "int \<Rightarrow> int \<Rightarrow> int" where
  "round_scaled m e =
     (if e \<ge> 0 then m * 2 ^ nat e
      else
        let d = nat (- e);
            q = m div 2 ^ d;
            r = m mod 2 ^ d
        in if 2 * r > 2 ^ d \<or> (2 * r = 2 ^ d \<and> odd q) then q + 1 else q)"

definition format_float_2f :: "float64 \<Rightarrow> string" where
  "format_float_2f x =
     (case x of
        NaN \<Rightarrow> ''nan''
      | Infinite s \<Rightarrow> (if s then ''-inf'' else ''inf'')
      | Finite s m e \<Rightarrow>
          (let n = round_scaled (m * 100) e
           in (if s then ''-'' else []) @ digits (n div 100) @ ''.'' @
              [digit (n mod 100 div 10), digit (n mod 10)]))"

definition format_2f :: "pynum \<Rightarrow> error + string" where
  "format_2f x =
     (case to_float x of
        Inl err \<Rightarrow> Inl err
      | Inr f \<Rightarrow> Inr (format_float_2f f))"

text \<open>\<^verbatim>\<open>sep.join(xs)\<close>\<close>

fun join :: "string \<Rightarrow> string list \<Rightarrow> string" where
  "join sep [] = []"
| "join sep [x] = x"
| "join sep (x # y # ys) = x @ sep @ join sep (y # ys)"

section \<open>Seat\<close>

text \<open>
  The four private fields of \<^verbatim>\<open>class Seat\<close>, named after their accessors. The constructor
  accepts an argument only when it is an \<^verbatim>\<open>int\<close> greater than 0; a float stands here for any
  argument that is not an \<^verbatim>\<open>int\<close>, all of which take the same branch.
\<close>

record seat =
  get_number :: int
  get_row :: int
  is_reserved :: bool
  get_price :: pynum

definition Seat_init :: "pynum \<Rightarrow> pynum \<Rightarrow> error + seat" where
  "Seat_init number row =
     (case number of
        PFloat x \<Rightarrow> Inl InvalidSeatNumber
      | PInt n \<Rightarrow>
          if n \<le> 0 then Inl InvalidSeatNumber
          else
            (case row of
               PFloat y \<Rightarrow> Inl InvalidSeatRow
             | PInt r \<Rightarrow>
                 if r \<le> 0 then Inl InvalidSeatRow
                 else Inr \<lparr>get_number = n, get_row = r, is_reserved = False,
                           get_price = PInt 0\<rparr>))"

definition set_reserved :: "seat \<Rightarrow> bool \<Rightarrow> seat" where
  "set_reserved s reserved = s\<lparr>is_reserved := reserved\<rparr>"

definition set_price :: "seat \<Rightarrow> pynum \<Rightarrow> seat" where
  "set_price s price = s\<lparr>get_price := price\<rparr>"

section \<open>CinemaHall\<close>

text \<open>
  A hall has the single field \<^verbatim>\<open>__seats\<close>, a list of seat objects; the state of a hall is
  this list with the fields of its seats. A seat object of the hall is referred to by its
  position in the list. Every operation returns its result, an error or the returned text,
  together with the state it leaves, so that a state change made before an exception is
  raised stays visible.
\<close>

text \<open>
  The messages print the number and the row of a seat of the hall with \<open>decimal\<close>: a
  hall has at least as many seats as its greatest seat number or row (\<open>run_bounded\<close>
  below), so that such a number stays far below the limit of \<open>str_int\<close>. A price comes
  from an argument of the caller, and \<open>show_seats\<close> prints it with \<open>str_num\<close>.
\<close>

type_synonym hall = "seat list"

type_synonym 'a outcome = "(error + 'a) \<times> hall"

fun row_loop :: "hall \<Rightarrow> int \<Rightarrow> int list \<Rightarrow> error + hall" where
  "row_loop seats row [] = Inr seats"
| "row_loop seats row (number # numbers) =
     (case Seat_init (PInt number) (PInt row) of
        Inl err \<Rightarrow> Inl err
      | Inr s \<Rightarrow> row_loop (seats @ [s]) row numbers)"

fun hall_loop :: "hall \<Rightarrow> int list \<Rightarrow> int \<Rightarrow> error + hall" where
  "hall_loop seats [] seats_per_row = Inr seats"
| "hall_loop seats (row # rows) seats_per_row =
     (case row_loop seats row [1..seats_per_row] of
        Inl err \<Rightarrow> Inl err
      | Inr seats' \<Rightarrow> hall_loop seats' rows seats_per_row)"

definition CinemaHall_init :: "pynum \<Rightarrow> pynum \<Rightarrow> error + hall" where
  "CinemaHall_init rows seats_per_row =
     (case seats_per_row of
        PFloat x \<Rightarrow> Inl InvalidSeatsPerRow
      | PInt n \<Rightarrow>
          if n \<le> 0 then Inl InvalidSeatsPerRow
          else
            (case rows of
               PFloat y \<Rightarrow> Inl InvalidRows
             | PInt r \<Rightarrow>
                 if r \<le> 0 then Inl InvalidRows
                 else hall_loop [] [1..r] n))"

fun search_seat :: "hall \<Rightarrow> int \<Rightarrow> int \<Rightarrow> nat option" where
  "search_seat [] number row = None"
| "search_seat (s # ss) number row =
     (if get_number s = number \<and> get_row s = row then Some 0
      else map_option Suc (search_seat ss number row))"

definition reserve_seat ::
  "hall \<Rightarrow> int \<Rightarrow> int \<Rightarrow> int \<Rightarrow> int \<Rightarrow> pynum \<Rightarrow> string outcome" where
  "reserve_seat h number row age day_of_week base_price =
     (case search_seat h number row of
        None \<Rightarrow> (Inl SeatNotFound, h)
      | Some i \<Rightarrow>
          if \<not> is_reserved (h ! i) then
            (case (if day_of_week = 2 then mul_float base_price lit_0_8
                   else Inr base_price) of
               Inl err \<Rightarrow> (Inl err, h)
             | Inr price1 \<Rightarrow>
                 (case (if age > 65 then mul_float price1 lit_0_7 else Inr price1) of
                    Inl err \<Rightarrow> (Inl err, h)
                  | Inr price \<Rightarrow>
                      let h1 = h[i := set_price (h ! i) price];
                          h2 = h1[i := set_reserved (h1 ! i) True]
                      in (case format_2f price of
                            Inl err \<Rightarrow> (Inl err, h2)
                          | Inr text \<Rightarrow>
                              (Inr (''Seat '' @ decimal number @ '' in row '' @
                                    decimal row @ '' has been reserved. Price: '' @
                                    text @ euro), h2))))
          else (Inl AlreadyReserved, h))"

definition cancel_reservation :: "hall \<Rightarrow> int \<Rightarrow> int \<Rightarrow> string outcome" where
  "cancel_reservation h number row =
     (case search_seat h number row of
        None \<Rightarrow> (Inl SeatNotFound, h)
      | Some i \<Rightarrow>
          if is_reserved (h ! i) then
            let h1 = h[i := set_reserved (h ! i) False];
                h2 = h1[i := set_price (h1 ! i) (PInt 0)]
            in (Inr (''Reservation for seat '' @ decimal number @ '' in row '' @
                     decimal row @ '' has been canceled.''), h2)
          else (Inl NotReserved, h))"

text \<open>
  The comparison of the insertion loop of \<^verbatim>\<open>add_seat\<close>: the new seat comes before \<open>a\<close> in
  the order by row, then number.
\<close>

definition seat_before :: "seat \<Rightarrow> seat \<Rightarrow> bool" where
  "seat_before s a \<longleftrightarrow>
     get_row s < get_row a \<or> (get_row s = get_row a \<and> get_number s < get_number a)"

fun registered :: "hall \<Rightarrow> seat \<Rightarrow> bool" where
  "registered [] s = False"
| "registered (a # as) s =
     (if get_number a = get_number s \<and> get_row a = get_row s then True
      else registered as s)"

fun find_position :: "hall \<Rightarrow> seat \<Rightarrow> nat" where
  "find_position [] s = 0"
| "find_position (a # as) s =
     (if seat_before s a then 0 else Suc (find_position as s))"

definition list_insert :: "'a list \<Rightarrow> nat \<Rightarrow> 'a \<Rightarrow> 'a list" where
  "list_insert xs position x = take position xs @ x # drop position xs"

definition add_seat :: "hall \<Rightarrow> seat \<Rightarrow> string outcome" where
  "add_seat h s =
     (if registered h s then (Inl DuplicateSeat, h)
      else if h \<noteq> [] \<and> get_row s > get_row (last h) then
        (Inl (RowOutOfRange (get_row (hd h)) (get_row (last h))), h)
      else if h \<noteq> [] \<and> get_number s \<noteq> get_number (last h) + 1 then
        (Inl (NonSequentialSeat (get_number (last h) + 1)), h)
      else
        (Inr (''Seat '' @ decimal (get_number s) @ '' in row '' @ decimal (get_row s) @
              '' has been added.''),
         list_insert h (find_position h s) s))"

definition seat_line :: "(float64 \<Rightarrow> string) \<Rightarrow> pynum \<Rightarrow> seat \<Rightarrow> error + string" where
  "seat_line float_repr base_price s =
     (let status = (if is_reserved s then ''Reserved'' else ''Available'');
          price = (if is_reserved s then get_price s else base_price)
      in case str_num float_repr price of
           Inl err \<Rightarrow> Inl err
         | Inr price_text \<Rightarrow>
             Inr (''Seat '' @ decimal (get_number s) @ '', row '' @ decimal (get_row s) @
                  '': '' @ status @ '', Price: '' @ price_text @ euro))"

fun show_loop ::
  "(float64 \<Rightarrow> string) \<Rightarrow> pynum \<Rightarrow> string list \<Rightarrow> hall \<Rightarrow> error + string list" where
  "show_loop float_repr base_price all_seats [] = Inr all_seats"
| "show_loop float_repr base_price all_seats (s # ss) =
     (case seat_line float_repr base_price s of
        Inl err \<Rightarrow> Inl err
      | Inr line \<Rightarrow> show_loop float_repr base_price (all_seats @ [line]) ss)"

definition show_seats ::
  "(float64 \<Rightarrow> string) \<Rightarrow> hall \<Rightarrow> int \<Rightarrow> pynum \<Rightarrow> string outcome" where
  "show_seats float_repr h day_of_week base_price =
     (case (if day_of_week = 2 then mul_float base_price lit_0_8 else Inr base_price) of
        Inl err \<Rightarrow> (Inl err, h)
      | Inr base_price' \<Rightarrow>
          (case show_loop float_repr base_price' [] h of
             Inl err \<Rightarrow> (Inl err, h)
           | Inr all_seats \<Rightarrow> (Inr (join [CHR 0x0A] all_seats), h)))"

text \<open>
  The defaults of the parameters. \<^verbatim>\<open>day_of_week=datetime.today().weekday()\<close> is evaluated
  once, when the class body runs: \<open>startup_weekday\<close> is the weekday of that moment. A call
  that leaves an argument out is a call with \<open>None\<close> for it.
\<close>

definition call_reserve_seat ::
  "int \<Rightarrow> hall \<Rightarrow> int \<Rightarrow> int \<Rightarrow> int \<Rightarrow> int option \<Rightarrow> pynum option \<Rightarrow> string outcome" where
  "call_reserve_seat startup_weekday h number row age day_of_week base_price =
     reserve_seat h number row age
       (case day_of_week of None \<Rightarrow> startup_weekday | Some d \<Rightarrow> d)
       (case base_price of None \<Rightarrow> PInt 10 | Some b \<Rightarrow> b)"

definition call_show_seats ::
  "int \<Rightarrow> (float64 \<Rightarrow> string) \<Rightarrow> hall \<Rightarrow> int option \<Rightarrow> pynum option \<Rightarrow> string outcome" where
  "call_show_seats startup_weekday float_repr h day_of_week base_price =
     show_seats float_repr h
       (case day_of_week of None \<Rightarrow> startup_weekday | Some d \<Rightarrow> d)
       (case base_price of None \<Rightarrow> PInt 10 | Some b \<Rightarrow> b)"

section \<open>Predicates of the properties\<close>

text \<open>A number that Python can convert to a float: every float, and every integer in range.\<close>

definition convertible :: "pynum \<Rightarrow> bool" where
  "convertible x = (case to_float x of Inl err \<Rightarrow> False | Inr f \<Rightarrow> True)"

text \<open>
  The price rule in the words of the specification, on the float value \<open>f\<close> of the base
  price: multiplied by 0.8 on a Wednesday (day 2), and by 0.7 for an age above 65, each
  factor on its own and both when both apply.
\<close>

definition discounted :: "int \<Rightarrow> int \<Rightarrow> float64 \<Rightarrow> float64" where
  "discounted day_of_week age f =
     (let f1 = (if day_of_week = 2 then fmul f lit_0_8 else f)
      in if age > 65 then fmul f1 lit_0_7 else f1)"

text \<open>
  A number that \<^verbatim>\<open>str\<close> prints, a float or an integer of at most 4300 digits, and the
  text printed for it.
\<close>

definition printable :: "pynum \<Rightarrow> bool" where
  "printable x = (case x of PInt n \<Rightarrow> \<bar>n\<bar> < 10 ^ max_str_digits | PFloat f \<Rightarrow> True)"

definition num_text :: "(float64 \<Rightarrow> string) \<Rightarrow> pynum \<Rightarrow> string" where
  "num_text float_repr x = (case x of PInt n \<Rightarrow> decimal n | PFloat f \<Rightarrow> float_repr f)"

text \<open>
  No seat has a number or a row greater than the number of seats of the hall, which has
  a seat.
\<close>

definition bounded :: "hall \<Rightarrow> bool" where
  "bounded h \<longleftrightarrow>
     h \<noteq> [] \<and> list_all (\<lambda>s. get_number s \<le> int (length h) \<and> get_row s \<le> int (length h)) h"

text \<open>The seat that \<^verbatim>\<open>Seat(number, row)\<close> builds: not reserved, with price 0.\<close>

definition fresh_seat :: "int \<Rightarrow> int \<Rightarrow> seat" where
  "fresh_seat number row =
     \<lparr>get_number = number, get_row = row, is_reserved = False, get_price = PInt 0\<rparr>"

text \<open>The errors of the constructors, which the specification calls InvalidArgument.\<close>

definition invalid_argument :: "error \<Rightarrow> bool" where
  "invalid_argument err \<longleftrightarrow>
     err = InvalidSeatNumber \<or> err = InvalidSeatRow \<or> err = InvalidSeatsPerRow \<or>
     err = InvalidRows"

text \<open>The seat list is ascending by row, then number; and no two seats share number and row.\<close>

definition sorted_seats :: "hall \<Rightarrow> bool" where
  "sorted_seats h = sorted_wrt (\<lambda>a b. \<not> seat_before b a) h"

definition distinct_seats :: "hall \<Rightarrow> bool" where
  "distinct_seats h = distinct (map (\<lambda>s. (get_number s, get_row s)) h)"

text \<open>
  The calls that change a hall, and the state a sequence of them leaves; a call that
  raises leaves the state it had reached.
\<close>

datatype operation =
    Reserve int int int int pynum
  | Cancel int int
  | AddSeat seat

fun step :: "hall \<Rightarrow> operation \<Rightarrow> hall" where
  "step h (Reserve number row age day_of_week base_price) =
     snd (reserve_seat h number row age day_of_week base_price)"
| "step h (Cancel number row) = snd (cancel_reservation h number row)"
| "step h (AddSeat s) = snd (add_seat h s)"

fun run :: "hall \<Rightarrow> operation list \<Rightarrow> hall" where
  "run h [] = h"
| "run h (x # xs) = run (step h x) xs"

section \<open>Numbers and text: basic facts\<close>

lemma to_float_PFloat: "to_float (PFloat f) = Inr f"
  by (simp add: to_float_def)

lemma float_of_int_error: "float_of_int n = Inl err \<Longrightarrow> err = OverflowError"
  by (auto simp: float_of_int_def split: float64.splits)

lemma to_float_error: "to_float x = Inl err \<Longrightarrow> err = OverflowError"
  by (auto simp: to_float_def float_of_int_error split: pynum.splits)

lemma mul_float_error: "mul_float x c = Inl err \<Longrightarrow> err = OverflowError"
  by (auto simp: mul_float_def to_float_error split: sum.splits)

lemma format_2f_error: "format_2f x = Inl err \<Longrightarrow> err = OverflowError"
  by (auto simp: format_2f_def to_float_error split: sum.splits)

lemma mul_float_ok: "to_float x = Inr f \<Longrightarrow> mul_float x c = Inr (PFloat (fmul f c))"
  by (simp add: mul_float_def)

lemma format_2f_ok: "to_float x = Inr f \<Longrightarrow> format_2f x = Inr (format_float_2f f)"
  by (simp add: format_2f_def)

text \<open>The values of the example of the specification: \<^verbatim>\<open>10 * 0.7\<close> is the float 7.0.\<close>

lemma ten_to_float: "to_float (PInt 10) = Inr (Finite False 5629499534213120 (- 49))"
  by code_simp

lemma ten_times_0_7:
  "fmul (Finite False 5629499534213120 (- 49)) lit_0_7 = Finite False 7881299347898368 (- 50)"
  by code_simp

lemma seven_text: "format_float_2f (Finite False 7881299347898368 (- 50)) = ''7.00''"
  by code_simp

lemma seven_value: "num_value (PFloat (Finite False 7881299347898368 (- 50))) = Some 7"
  by (simp add: num_value_def float_value_def)

text \<open>The float literals are the floats nearest to 4/5 and 7/10: both are within half a unit
  in the last place, \<open>2\<^sup>-\<^sup>5\<^sup>4\<close>.\<close>

lemma lit_0_8_nearest:
  "float_value lit_0_8 = Some (3602879701896397 / 4503599627370496) \<and>
   \<bar>3602879701896397 / 4503599627370496 - 4 / 5 :: rat\<bar> < 1 / 2 ^ 54"
  by (simp add: float_value_def lit_0_8_def)

lemma lit_0_7_nearest:
  "float_value lit_0_7 = Some (3152519739159347 / 4503599627370496) \<and>
   \<bar>3152519739159347 / 4503599627370496 - 7 / 10 :: rat\<bar> < 1 / 2 ^ 54"
  by (simp add: float_value_def lit_0_7_def)

section \<open>The range of a float\<close>

text \<open>
  An integer converts to a float exactly when its magnitude is below \<open>2\<^sup>1\<^sup>0\<^sup>2\<^sup>4 - 2\<^sup>9\<^sup>7\<^sup>0\<close>, the
  least value that rounds up beyond the largest float.
\<close>

lemma bit_length_bounds:
  "0 < n \<Longrightarrow> 0 < bit_length n \<and> 2 ^ nat (bit_length n - 1) \<le> n \<and> n < 2 ^ nat (bit_length n)"
proof (induction n rule: bit_length.induct)
  case (1 n)
  show ?case
  proof (cases "n = 1")
    case True
    have "bit_length 1 = 1"
      by (simp add: bit_length.simps [of 1] bit_length.simps [of 0])
    with True show ?thesis by simp
  next
    case False
    with "1.prems" have half: "0 < n div 2" by simp
    let ?k = "bit_length (n div 2)"
    from "1.IH" half "1.prems"
    have IH: "0 < ?k" "2 ^ nat (?k - 1) \<le> n div 2" "n div 2 < 2 ^ nat ?k"
      by simp_all
    from "1.prems" have k: "bit_length n = 1 + ?k"
      by (simp add: bit_length.simps [of n])
    from IH(1) have p: "(2::int) ^ nat ?k = 2 * 2 ^ nat (?k - 1)"
      by (metis Suc_nat_eq_nat_zadd1 add.commute diff_add_cancel power_Suc zle_diff1_eq)
    from IH(1) have q: "(2::int) ^ nat (1 + ?k) = 2 * 2 ^ nat ?k"
      by (simp add: nat_add_distrib)
    have "2 * (n div 2) \<le> n" "n < 2 * (n div 2) + 2" by presburger+
    with IH p q show ?thesis
      unfolding k by simp
  qed
qed

lemma below_top:
  fixes M q r c a :: int
  assumes "M = q * c + r" "r < c" "q \<le> a - 2" "0 \<le> c"
  shows "M < (a - 1) * c"
proof -
  from assms(3,4) have "q * c \<le> (a - 2) * c" by (rule mult_right_mono)
  also have "(a - 2) * c = (a - 1) * c - c" by (simp add: algebra_simps)
  finally show ?thesis using assms(1,2) by linarith
qed

lemma round64_int_large:
  assumes "0 < M" "53 < bit_length M"
  defines "d \<equiv> nat (bit_length M - 53)"
  defines "m \<equiv> (if 2 * (M mod 2 ^ d) > 2 ^ d \<or> (2 * (M mod 2 ^ d) = 2 ^ d \<and> odd (M div 2 ^ d))
                 then M div 2 ^ d + 1 else M div 2 ^ d)"
  shows "(\<exists>t. round64 s M 0 = Infinite t) \<longleftrightarrow>
         (if m = 2 ^ 53 then 1023 < bit_length M else 1024 < bit_length M)"
proof -
  from assms(2) have e: "max (bit_length M + 0 - 53) (- 1074) = bit_length M - 53"
    by simp
  from assms(1,2) have "round64 s M 0 =
      (if m = 2 ^ 53 then overflow_check s (2 ^ 52) (bit_length M - 53 + 1)
       else overflow_check s m (bit_length M - 53))"
    unfolding round64_def e Let_def m_def d_def by simp
  then show ?thesis
    by (simp add: overflow_check_def)
qed

lemma round64_int_Infinite:
  assumes "0 < M"
  shows "(\<exists>t. round64 s M 0 = Infinite t) \<longleftrightarrow> 2 ^ 1024 - 2 ^ 970 \<le> M"
proof -
  let ?k = "bit_length M"
  from bit_length_bounds [OF assms]
  have k: "0 < ?k" "2 ^ nat (?k - 1) \<le> M" "M < 2 ^ nat ?k" by simp_all
  have e: "max (?k + 0 - 53) (- 1074) = ?k - 53" using k(1) by simp
  consider "?k \<le> 53" | "53 < ?k" "?k \<le> 1023" | "?k = 1024" | "1025 \<le> ?k"
    by linarith
  then show ?thesis
  proof cases
    case 1
    then have "nat ?k \<le> 53" by simp
    then have "(2::int) ^ nat ?k \<le> 2 ^ 53" by (rule power_increasing) simp
    with k(3) have "M < 2 ^ 53" by linarith
    then have small: "\<not> 2 ^ 1024 - 2 ^ 970 \<le> M" by simp
    from 1 assms have "round64 s M 0 = overflow_check s (M * 2 ^ nat (0 - (?k - 53))) (?k - 53)"
      unfolding round64_def e Let_def by simp
    with 1 small show ?thesis
      by (simp add: overflow_check_def)
  next
    case 2
    then have "nat ?k \<le> 1023" by simp
    then have "(2::int) ^ nat ?k \<le> 2 ^ 1023" by (rule power_increasing) simp
    with k(3) have "M < 2 ^ 1023" by linarith
    then have small: "\<not> 2 ^ 1024 - 2 ^ 970 \<le> M" by simp
    from 2 small show ?thesis
      unfolding round64_int_large [OF assms 2(1)] by simp
  next
    case 3
    let ?q = "M div 2 ^ 971"
    let ?r = "M mod 2 ^ 971"
    from 3 have d: "nat (?k - 53) = 971" by simp
    from 3 k(3) have M: "M < 2 ^ 1024" by simp
    from 3 k(2) have M': "2 ^ 1023 \<le> M" by simp
    have split: "M = ?q * 2 ^ 971 + ?r" by simp
    have r: "0 \<le> ?r" "?r < 2 ^ 971" by simp_all
    have q: "?q < 2 ^ 53"
    proof (rule ccontr)
      assume "\<not> ?q < 2 ^ 53"
      then have "2 ^ 53 * 2 ^ 971 \<le> ?q * (2 ^ 971 :: int)"
        by (intro mult_right_mono) simp_all
      with split r(1) M show False by simp
    qed
    have inf: "(\<exists>t. round64 s M 0 = Infinite t) \<longleftrightarrow>
        (if 2 * ?r > 2 ^ 971 \<or> (2 * ?r = 2 ^ 971 \<and> odd ?q) then ?q + 1 else ?q) = 2 ^ 53"
      using round64_int_large [OF assms, of s] 3 by (simp add: d)
    show ?thesis
    proof (cases "?q = 2 ^ 53 - 1")
      case True
      then have "odd ?q" by simp
      moreover have "2 ^ 1024 - 2 ^ 970 \<le> M \<longleftrightarrow> 2 ^ 971 \<le> 2 * ?r"
      proof -
        define r where "r = ?r"
        from True split have "M = (2 ^ 53 - 1) * 2 ^ 971 + r" by (simp add: r_def)
        then have "2 ^ 1024 - 2 ^ 970 \<le> M \<longleftrightarrow> 2 ^ 971 \<le> 2 * r" by simp
        then show ?thesis by (simp add: r_def)
      qed
      ultimately show ?thesis
        unfolding inf using True by auto
    next
      case False
      with q have "?q \<le> 2 ^ 53 - 2" by simp
      with split r(2) have "M < (2 ^ 53 - 1) * 2 ^ 971"
        by (intro below_top [of M ?q _ ?r]) simp_all
      then have "\<not> 2 ^ 1024 - 2 ^ 970 \<le> M" by simp
      moreover from False q have "?q + 1 \<noteq> 2 ^ 53" "?q \<noteq> 2 ^ 53" by simp_all
      ultimately show ?thesis
        unfolding inf by simp
    qed
  next
    case 4
    then have "1024 \<le> nat (?k - 1)" by simp
    then have "(2::int) ^ 1024 \<le> 2 ^ nat (?k - 1)" by (rule power_increasing) simp
    with k(2) have big: "2 ^ 1024 \<le> M" by linarith
    then have large: "2 ^ 1024 - 2 ^ 970 \<le> M" by simp
    from 4 have "53 < ?k" by simp
    from 4 large show ?thesis
      unfolding round64_int_large [OF assms \<open>53 < ?k\<close>] by simp
  qed
qed

lemma convertible_int:
  "convertible (PInt n) \<longleftrightarrow> \<bar>n\<bar> < 2 ^ 1024 - 2 ^ 970"
proof (cases "n = 0")
  case True
  then show ?thesis
    by (simp add: convertible_def to_float_def float_of_int_def round64_def)
next
  case False
  then have "0 < \<bar>n\<bar>" by simp
  from round64_int_Infinite [OF this, of "n < 0"]
  show ?thesis
    by (auto simp: convertible_def to_float_def float_of_int_def split: float64.splits)
qed

lemma convertible_float: "convertible (PFloat f)"
  by (simp add: convertible_def to_float_def)

lemma convertible_iff: "convertible x \<longleftrightarrow> (\<exists>f. to_float x = Inr f)"
  by (auto simp: convertible_def split: sum.splits)

section \<open>Searching a seat\<close>

text \<open>
  \<open>search_seat\<close> finds the first seat with the number and the row, and finds none exactly
  when the hall has none.
\<close>

lemma search_seat_None_iff:
  "search_seat h n r = None \<longleftrightarrow> (\<forall>s\<in>set h. get_number s \<noteq> n \<or> get_row s \<noteq> r)"
  by (induction h) auto

lemma search_seat_Some:
  "search_seat h n r = Some i \<Longrightarrow>
     i < length h \<and> get_number (h ! i) = n \<and> get_row (h ! i) = r \<and>
     (\<forall>j<i. get_number (h ! j) \<noteq> n \<or> get_row (h ! j) \<noteq> r)"
proof (induction h arbitrary: i)
  case Nil
  then show ?case by simp
next
  case (Cons s ss)
  show ?case
  proof (cases "get_number s = n \<and> get_row s = r")
    case True
    with Cons.prems show ?thesis by simp
  next
    case False
    with Cons.prems obtain k where k: "search_seat ss n r = Some k" "i = Suc k"
      by auto
    from Cons.IH [OF k(1)] False k(2) show ?thesis
      by (auto simp: nth_Cons split: nat.splits)
  qed
qed

lemma search_seat_first:
  assumes "i < length h" "get_number (h ! i) = n" "get_row (h ! i) = r"
    and "\<forall>j<i. get_number (h ! j) \<noteq> n \<or> get_row (h ! j) \<noteq> r"
  shows "search_seat h n r = Some i"
proof -
  from assms(1-3) have "search_seat h n r \<noteq> None"
    by (auto simp: search_seat_None_iff)
  then obtain k where k: "search_seat h n r = Some k" by auto
  from search_seat_Some [OF k] assms have "k = i"
    by (metis linorder_neqE_nat)
  with k show ?thesis by simp
qed

lemma distinct_seats_unique:
  assumes "distinct_seats h" "i < length h" "j < length h"
    and "get_number (h ! i) = get_number (h ! j)" "get_row (h ! i) = get_row (h ! j)"
  shows "i = j"
proof -
  let ?k = "map (\<lambda>s. (get_number s, get_row s)) h"
  from assms have "?k ! i = ?k ! j" "i < length ?k" "j < length ?k" "distinct ?k"
    by (simp_all add: distinct_seats_def)
  then show ?thesis
    using nth_eq_iff_index_eq by blast
qed

lemma first_match_reserved:
  assumes "distinct_seats h"
  shows "(\<exists>i. search_seat h n r = Some i \<and> is_reserved (h ! i)) \<longleftrightarrow>
         (\<exists>s\<in>set h. get_number s = n \<and> get_row s = r \<and> is_reserved s)"
proof
  assume "\<exists>i. search_seat h n r = Some i \<and> is_reserved (h ! i)"
  then obtain i where "search_seat h n r = Some i" "is_reserved (h ! i)" by blast
  with search_seat_Some [of h n r i] show
    "\<exists>s\<in>set h. get_number s = n \<and> get_row s = r \<and> is_reserved s"
    by (metis nth_mem)
next
  assume "\<exists>s\<in>set h. get_number s = n \<and> get_row s = r \<and> is_reserved s"
  then obtain j where j: "j < length h" "get_number (h ! j) = n" "get_row (h ! j) = r"
      "is_reserved (h ! j)"
    by (metis in_set_conv_nth)
  then have "search_seat h n r \<noteq> None"
    by (auto simp: search_seat_None_iff)
  then obtain i where i: "search_seat h n r = Some i" by auto
  from search_seat_Some [OF i] j assms have "i = j"
    by (intro distinct_seats_unique [of h]) simp_all
  with i j show "\<exists>i. search_seat h n r = Some i \<and> is_reserved (h ! i)" by simp
qed

section \<open>The constructor\<close>

lemma Seat_init_ok:
  "0 < n \<Longrightarrow> 0 < r \<Longrightarrow> Seat_init (PInt n) (PInt r) = Inr (fresh_seat n r)"
  by (simp add: Seat_init_def fresh_seat_def)

lemma row_loop_ok:
  "0 < row \<Longrightarrow> \<forall>n\<in>set numbers. 0 < n \<Longrightarrow>
     row_loop seats row numbers = Inr (seats @ map (\<lambda>n. fresh_seat n row) numbers)"
  by (induction numbers arbitrary: seats) (simp_all add: Seat_init_ok)

lemma hall_loop_ok:
  "\<forall>r\<in>set rows. 0 < r \<Longrightarrow>
     hall_loop seats rows seats_per_row =
       Inr (seats @ concat (map (\<lambda>r. map (\<lambda>n. fresh_seat n r) [1..seats_per_row]) rows))"
  by (induction rows arbitrary: seats) (simp_all add: row_loop_ok)

lemma CinemaHall_init_ok:
  "0 < rows \<Longrightarrow> 0 < seats_per_row \<Longrightarrow>
     CinemaHall_init (PInt rows) (PInt seats_per_row) =
       Inr (concat (map (\<lambda>r. map (\<lambda>n. fresh_seat n r) [1..seats_per_row]) [1..rows]))"
  by (simp add: CinemaHall_init_def hall_loop_ok)

lemma length_grid:
  "length (concat (map (\<lambda>r. map (\<lambda>n. fresh_seat n r) [1..m]) rs)) = length rs * nat m"
  by (induction rs) simp_all

lemma sorted_grid:
  "sorted_wrt (<) rs \<Longrightarrow>
     sorted_wrt seat_before (concat (map (\<lambda>r. map (\<lambda>n. fresh_seat n r) [1..m]) rs))"
proof (induction rs)
  case Nil
  then show ?case by simp
next
  case (Cons r rs)
  let ?row = "map (\<lambda>n. fresh_seat n r) [1..m]"
  let ?rest = "concat (map (\<lambda>r. map (\<lambda>n. fresh_seat n r) [1..m]) rs)"
  have row: "sorted_wrt seat_before ?row"
    by (simp add: sorted_wrt_map seat_before_def fresh_seat_def)
  from Cons have rest: "sorted_wrt seat_before ?rest" by simp
  from Cons.prems have cross: "\<forall>x\<in>set ?row. \<forall>y\<in>set ?rest. seat_before x y"
    by (auto simp: seat_before_def fresh_seat_def)
  have "sorted_wrt seat_before (?row @ ?rest)"
    unfolding sorted_wrt_append using row rest cross by blast
  then show ?case by simp
qed

lemma strict_sorted_seats:
  assumes "sorted_wrt seat_before h"
  shows "sorted_seats h" and "distinct_seats h"
proof -
  show "sorted_seats h"
    unfolding sorted_seats_def
    by (rule sorted_wrt_mono_rel [OF _ assms]) (auto simp: seat_before_def)
  have "sorted_wrt (\<lambda>a b. a \<noteq> b) (map (\<lambda>s. (get_number s, get_row s)) h)"
    unfolding sorted_wrt_map
    by (rule sorted_wrt_mono_rel [OF _ assms]) (auto simp: seat_before_def)
  then show "distinct_seats h"
    by (simp add: distinct_seats_def distinct_conv_nth sorted_wrt_iff_nth_less)
       (metis linorder_neqE_nat)
qed

lemma grid_fresh:
  "s \<in> set (concat (map (\<lambda>r. map (\<lambda>n. fresh_seat n r) [1..m]) rs)) \<Longrightarrow>
     \<not> is_reserved s \<and> get_price s = PInt 0"
  by (auto simp: fresh_seat_def)

lemma CinemaHall_init_invalid:
  "(case rows of PInt r \<Rightarrow> r \<le> 0 | PFloat x \<Rightarrow> True) \<or>
   (case seats_per_row of PInt n \<Rightarrow> n \<le> 0 | PFloat x \<Rightarrow> True) \<Longrightarrow>
   \<exists>err. CinemaHall_init rows seats_per_row = Inl err \<and> invalid_argument err"
  by (auto simp: CinemaHall_init_def invalid_argument_def split: pynum.splits)

lemma CinemaHall_init_invariants:
  assumes "CinemaHall_init rows seats_per_row = Inr h"
  shows "sorted_seats h \<and> distinct_seats h"
proof -
  from assms obtain r n where rn: "rows = PInt r" "seats_per_row = PInt n" "0 < r" "0 < n"
    by (auto simp: CinemaHall_init_def split: pynum.splits if_splits)
  with assms have "h = concat (map (\<lambda>r. map (\<lambda>n. fresh_seat n r) [1..n]) [1..r])"
    by (simp add: CinemaHall_init_ok)
  moreover have "sorted_wrt seat_before
      (concat (map (\<lambda>r. map (\<lambda>n. fresh_seat n r) [1..n]) [1..r]))"
    by (rule sorted_grid) simp
  ultimately show ?thesis
    using strict_sorted_seats by blast
qed

section \<open>Reserving and cancelling\<close>

lemma reserve_seat_result:
  assumes "search_seat h number row = Some i"
    and "\<not> is_reserved (h ! i)"
    and "to_float base_price = Inr f"
  shows "reserve_seat h number row age day_of_week base_price =
           (Inr (''Seat '' @ decimal number @ '' in row '' @ decimal row @
                 '' has been reserved. Price: '' @
                 format_float_2f (discounted day_of_week age f) @ euro),
            h[i := (h ! i)\<lparr>get_price :=
                                (if day_of_week = 2 \<or> age > 65
                                 then PFloat (discounted day_of_week age f)
                                 else base_price),
                             is_reserved := True\<rparr>])"
proof -
  from assms(1) have "i < length h"
    by (simp add: search_seat_Some)
  with assms show ?thesis
    by (simp add: reserve_seat_def discounted_def mul_float_ok format_2f_ok
        to_float_PFloat set_price_def set_reserved_def Let_def)
qed

lemma reserve_seat_not_found:
  "fst (reserve_seat h n r age d b) = Inl SeatNotFound \<longleftrightarrow> search_seat h n r = None"
  by (auto simp: reserve_seat_def Let_def split: option.splits sum.splits if_splits
      dest: mul_float_error format_2f_error)

lemma reserve_seat_already:
  "fst (reserve_seat h n r age d b) = Inl AlreadyReserved \<longleftrightarrow>
     (\<exists>i. search_seat h n r = Some i \<and> is_reserved (h ! i))"
  by (auto simp: reserve_seat_def Let_def split: option.splits sum.splits if_splits
      dest: mul_float_error format_2f_error)

lemma reserve_seat_already_state:
  "fst (reserve_seat h n r age d b) = Inl AlreadyReserved \<Longrightarrow>
     snd (reserve_seat h n r age d b) = h"
  by (auto simp: reserve_seat_def Let_def split: option.splits sum.splits if_splits
      dest: mul_float_error format_2f_error)

lemma map_update_same:
  "i < length h \<Longrightarrow> f x = f (h ! i) \<Longrightarrow> map f (h[i := x]) = map f h"
  by (simp add: map_update list_update_same_conv)

lemma reserve_seat_keys:
  "map (\<lambda>s. (get_row s, get_number s)) (snd (reserve_seat h number row age day_of_week base_price)) =
   map (\<lambda>s. (get_row s, get_number s)) h"
proof (cases "search_seat h number row")
  case None
  then show ?thesis by (simp add: reserve_seat_def)
next
  case (Some i)
  then have "i < length h" by (simp add: search_seat_Some)
  with Some show ?thesis
    by (auto simp: reserve_seat_def Let_def set_price_def set_reserved_def map_update_same
        split: sum.splits)
qed

lemma cancel_reservation_keys:
  "map (\<lambda>s. (get_row s, get_number s)) (snd (cancel_reservation h number row)) =
   map (\<lambda>s. (get_row s, get_number s)) h"
proof (cases "search_seat h number row")
  case None
  then show ?thesis by (simp add: cancel_reservation_def)
next
  case (Some i)
  then have "i < length h" by (simp add: search_seat_Some)
  with Some show ?thesis
    by (auto simp: cancel_reservation_def Let_def set_price_def set_reserved_def map_update_same)
qed

section \<open>Adding a seat\<close>

lemma registered_iff:
  "registered h s \<longleftrightarrow> (\<exists>a\<in>set h. get_number a = get_number s \<and> get_row a = get_row s)"
  by (induction h) auto

lemma find_position_take:
  "a \<in> set (take (find_position h s) h) \<Longrightarrow> \<not> seat_before s a"
  by (induction h) (auto split: if_splits)

lemma find_position_drop:
  "find_position h s < length h \<Longrightarrow> seat_before s (h ! find_position h s)"
  by (induction h) (auto split: if_splits)

lemma seat_before_trans:
  "seat_before a b \<Longrightarrow> \<not> seat_before c b \<Longrightarrow> seat_before a c"
  by (auto simp: seat_before_def)

lemma seat_before_asym: "seat_before a b \<Longrightarrow> \<not> seat_before b a"
  by (auto simp: seat_before_def)

lemma set_list_insert:
  "set (list_insert xs p x) = insert x (set xs)"
proof -
  have "set (take p xs) \<union> set (drop p xs) = set xs"
    by (metis append_take_drop_id set_append)
  then show ?thesis by (auto simp: list_insert_def)
qed

lemma list_insert_Cons:
  "list_insert (a # as) (Suc p) x = a # list_insert as p x"
  by (simp add: list_insert_def)

lemma list_insert_0: "list_insert xs 0 x = x # xs"
  by (simp add: list_insert_def)

lemma sorted_insert:
  "sorted_seats h \<Longrightarrow> sorted_seats (list_insert h (find_position h s) s)"
proof (induction h)
  case Nil
  then show ?case by (simp add: sorted_seats_def list_insert_def)
next
  case (Cons a as)
  show ?case
  proof (cases "seat_before s a")
    case True
    have "\<not> seat_before y s" if "y \<in> set (a # as)" for y
    proof -
      from Cons.prems that have "\<not> seat_before y a"
        by (auto simp: sorted_seats_def seat_before_def)
      with True have "seat_before s y" by (rule seat_before_trans)
      then show ?thesis by (rule seat_before_asym)
    qed
    with True Cons.prems show ?thesis
      by (simp add: list_insert_0 sorted_seats_def)
  next
    case False
    from Cons.prems have "sorted_seats as" by (simp add: sorted_seats_def)
    then have "sorted_seats (list_insert as (find_position as s) s)" by (rule Cons.IH)
    with False Cons.prems show ?thesis
      by (auto simp: list_insert_Cons sorted_seats_def set_list_insert)
  qed
qed

lemma map_list_insert: "map f (list_insert xs p x) = list_insert (map f xs) p (f x)"
  by (simp add: list_insert_def take_map drop_map)

lemma distinct_list_insert:
  "distinct (list_insert xs p x) \<longleftrightarrow> distinct xs \<and> x \<notin> set xs"
proof -
  have d: "distinct xs \<longleftrightarrow>
      distinct (take p xs) \<and> distinct (drop p xs) \<and> set (take p xs) \<inter> set (drop p xs) = {}"
    by (metis append_take_drop_id distinct_append)
  have s: "set xs = set (take p xs) \<union> set (drop p xs)"
    by (metis append_take_drop_id set_append)
  show ?thesis
    unfolding list_insert_def d s by auto
qed

lemma distinct_insert:
  "distinct_seats h \<Longrightarrow> \<not> registered h s \<Longrightarrow> distinct_seats (list_insert h p s)"
  by (auto simp: distinct_seats_def map_list_insert distinct_list_insert registered_iff)

lemma sorted_last_row:
  assumes "sorted_seats h" "a \<in> set h"
  shows "get_row a \<le> get_row (last h)"
proof -
  from assms(2) obtain i where i: "i < length h" "h ! i = a"
    by (auto simp: in_set_conv_nth)
  then have h: "h \<noteq> []" by auto
  show ?thesis
  proof (cases "i = length h - 1")
    case True
    with i h show ?thesis by (simp add: last_conv_nth)
  next
    case False
    with i have "i < length h - 1" "length h - 1 < length h" by simp_all
    with assms(1) have "\<not> seat_before (h ! (length h - 1)) (h ! i)"
      unfolding sorted_seats_def by (simp add: sorted_wrt_iff_nth_less)
    with i h show ?thesis
      by (auto simp: last_conv_nth seat_before_def)
  qed
qed

lemma add_seat_insert:
  assumes "\<not> registered h s"
    and "h = [] \<or> (get_row s \<le> get_row (last h) \<and> get_number s = get_number (last h) + 1)"
  shows "add_seat h s =
      (Inr (''Seat '' @ decimal (get_number s) @ '' in row '' @ decimal (get_row s) @
            '' has been added.''),
       take (find_position h s) h @ s # drop (find_position h s) h)"
  using assms by (auto simp: add_seat_def list_insert_def)

lemma add_seat_sorted:
  "sorted_seats h \<Longrightarrow> sorted_seats (snd (add_seat h s))"
  using sorted_insert [of h s] by (auto simp: add_seat_def)

lemma add_seat_distinct:
  "distinct_seats h \<Longrightarrow> distinct_seats (snd (add_seat h s))"
  using distinct_insert [of h s "find_position h s"] by (auto simp: add_seat_def)

section \<open>The order of the seats is kept\<close>

lemma sorted_seats_keys:
  "sorted_seats h =
     sorted_wrt (\<lambda>a b. \<not> (fst b < fst a \<or> (fst b = fst a \<and> snd b < snd a)))
       (map (\<lambda>s. (get_row s, get_number s)) h)"
  by (simp add: sorted_seats_def sorted_wrt_map seat_before_def)

lemma distinct_seats_keys:
  "distinct_seats h = distinct (map (\<lambda>s. (get_row s, get_number s)) h)"
  unfolding distinct_seats_def distinct_map inj_on_def by auto

lemma step_invariants:
  assumes "sorted_seats h" "distinct_seats h"
  shows "sorted_seats (step h x) \<and> distinct_seats (step h x)"
proof (cases x)
  case (Reserve number row age day_of_week base_price)
  with assms show ?thesis
    by (simp add: sorted_seats_keys distinct_seats_keys reserve_seat_keys)
next
  case (Cancel number row)
  with assms show ?thesis
    by (simp add: sorted_seats_keys distinct_seats_keys cancel_reservation_keys)
next
  case (AddSeat s)
  with assms show ?thesis
    by (simp add: add_seat_sorted add_seat_distinct)
qed

lemma run_invariants:
  "sorted_seats h \<Longrightarrow> distinct_seats h \<Longrightarrow>
     sorted_seats (run h xs) \<and> distinct_seats (run h xs)"
proof (induction xs arbitrary: h)
  case Nil
  then show ?case by simp
next
  case (Cons x xs)
  from step_invariants [OF Cons.prems, of x] show ?case
    by (simp add: Cons.IH)
qed

section \<open>Seat numbers and the size of the hall\<close>

text \<open>
  A hall that the constructor built and any calls have changed has at least as many
  seats as its greatest seat number and as its greatest row: a seat number or a row of
  more than 4300 digits would take a hall of more than \<open>10\<^sup>4\<^sup>3\<^sup>0\<^sup>0\<close> seat objects.
\<close>

lemma bounded_keys:
  "bounded h \<longleftrightarrow>
     (let ks = map (\<lambda>s. (get_row s, get_number s)) h
      in ks \<noteq> [] \<and> (\<forall>k\<in>set ks. snd k \<le> int (length ks) \<and> fst k \<le> int (length ks)))"
  by (auto simp: bounded_def list_all_iff Let_def)

lemma length_list_insert: "length (list_insert xs p x) = Suc (length xs)"
  by (simp add: list_insert_def)

lemma list_insert_not_Nil: "list_insert xs p x \<noteq> []"
  by (simp add: list_insert_def)

lemma grid_bounded:
  assumes "0 < r" "0 < n"
  shows "bounded (concat (map (\<lambda>r. map (\<lambda>n. fresh_seat n r) [1..n]) [1..r]))"
proof -
  let ?h = "concat (map (\<lambda>r. map (\<lambda>n. fresh_seat n r) [1..n]) [1..r])"
  from assms have len: "int (length ?h) = r * n"
    by (simp add: length_grid)
  from assms have "n \<le> r * n" "r \<le> r * n"
    by (simp_all add: mult_le_cancel_right1 mult_le_cancel_left1)
  moreover have "get_number s \<le> n \<and> get_row s \<le> r" if "s \<in> set ?h" for s
    using that by (auto simp: fresh_seat_def)
  ultimately have "\<forall>s\<in>set ?h. get_number s \<le> int (length ?h) \<and> get_row s \<le> int (length ?h)"
    unfolding len by (meson order_trans)
  moreover from len assms have "?h \<noteq> []"
    by (metis length_0_conv mult_pos_pos of_nat_0 less_irrefl)
  ultimately show ?thesis
    unfolding bounded_def list_all_iff by blast
qed

lemma CinemaHall_init_bounded:
  assumes "CinemaHall_init rows seats_per_row = Inr h"
  shows "bounded h"
proof -
  from assms obtain r n where rn: "rows = PInt r" "seats_per_row = PInt n" "0 < r" "0 < n"
    by (auto simp: CinemaHall_init_def split: pynum.splits if_splits)
  with assms have "h = concat (map (\<lambda>r. map (\<lambda>n. fresh_seat n r) [1..n]) [1..r])"
    by (simp add: CinemaHall_init_ok)
  with rn show ?thesis
    by (simp add: grid_bounded)
qed

lemma add_seat_bounded:
  assumes "bounded h"
  shows "bounded (snd (add_seat h s))"
proof (cases "fst (add_seat h s)")
  case (Inl err)
  then have "snd (add_seat h s) = h"
    by (auto simp: add_seat_def split: if_splits)
  with assms show ?thesis by simp
next
  case (Inr t)
  from assms have ne: "h \<noteq> []" by (simp add: bounded_def)
  with Inr have ok: "get_row s \<le> get_row (last h)" "get_number s = get_number (last h) + 1"
    and state: "snd (add_seat h s) = list_insert h (find_position h s) s"
    by (auto simp: add_seat_def split: if_splits)
  from ne have "last h \<in> set h" by simp
  with assms have "get_number (last h) \<le> int (length h)" "get_row (last h) \<le> int (length h)"
    by (auto simp: bounded_def list_all_iff)
  with ok have "get_number s \<le> int (length h) + 1" "get_row s \<le> int (length h) + 1"
    by simp_all
  moreover from assms
  have "\<forall>a\<in>set h. get_number a \<le> int (length h) + 1 \<and> get_row a \<le> int (length h) + 1"
    by (fastforce simp: bounded_def list_all_iff)
  ultimately show ?thesis
    unfolding state bounded_def list_all_iff
    by (auto simp: set_list_insert length_list_insert list_insert_not_Nil)
qed

lemma step_bounded: "bounded h \<Longrightarrow> bounded (step h x)"
proof (cases x)
  case (Reserve number row age day_of_week base_price)
  assume "bounded h"
  with Reserve show ?thesis
    by (simp add: bounded_keys reserve_seat_keys)
next
  case (Cancel number row)
  assume "bounded h"
  with Cancel show ?thesis
    by (simp add: bounded_keys cancel_reservation_keys)
next
  case (AddSeat s)
  assume "bounded h"
  with AddSeat show ?thesis
    by (simp add: add_seat_bounded)
qed

lemma run_bounded:
  assumes "CinemaHall_init rows seats_per_row = Inr h"
  shows "bounded (run h ops)"
proof -
  have "bounded h \<Longrightarrow> bounded (run h ops)" for h
    by (induction ops arbitrary: h) (simp_all add: step_bounded)
  with CinemaHall_init_bounded [OF assms] show ?thesis by blast
qed

section \<open>Showing the seats\<close>

text \<open>
  \<open>show_seats\<close> prints every price with \<^verbatim>\<open>str\<close>: the loop returns the lines when every
  price it prints is printable, and raises at the first one that is not.
\<close>

lemma str_num_printable:
  "printable x \<Longrightarrow> str_num float_repr x = Inr (num_text float_repr x)"
  by (cases x) (simp_all add: printable_def str_num_def num_text_def str_int_def)

lemma str_num_not_printable:
  "\<not> printable x \<Longrightarrow> str_num float_repr x = Inl DigitLimit"
  by (cases x) (simp_all add: printable_def str_num_def str_int_def)

lemma printable_float: "printable (PFloat f)"
  by (simp add: printable_def)

lemma printable_small: "\<bar>n\<bar> < 10 ^ 9 \<Longrightarrow> printable (PInt n)"
proof -
  assume "\<bar>n\<bar> < 10 ^ 9"
  moreover have "(10::int) ^ 9 \<le> 10 ^ max_str_digits"
    by (rule power_increasing) (simp_all add: max_str_digits_def)
  ultimately have "\<bar>n\<bar> < 10 ^ max_str_digits"
    by (rule less_le_trans)
  then show ?thesis by (simp add: printable_def)
qed

lemma not_printable_limit: "\<not> printable (PInt (10 ^ max_str_digits))"
  by (simp add: printable_def)

lemma show_loop_lines:
  assumes "\<forall>s\<in>set h. printable (if is_reserved s then get_price s else p)"
  shows "show_loop float_repr p all_seats h =
     Inr (all_seats @
          map (\<lambda>s. ''Seat '' @ decimal (get_number s) @ '', row '' @ decimal (get_row s) @
                    '': '' @ (if is_reserved s then ''Reserved'' else ''Available'') @
                    '', Price: '' @
                    num_text float_repr (if is_reserved s then get_price s else p) @ euro) h)"
  using assms
proof (induction h arbitrary: all_seats)
  case Nil
  then show ?case by simp
next
  case (Cons s ss)
  from Cons.prems have "printable (if is_reserved s then get_price s else p)" by simp
  then have "seat_line float_repr p s =
      Inr (''Seat '' @ decimal (get_number s) @ '', row '' @ decimal (get_row s) @
           '': '' @ (if is_reserved s then ''Reserved'' else ''Available'') @
           '', Price: '' @
           num_text float_repr (if is_reserved s then get_price s else p) @ euro)"
    by (simp add: seat_line_def Let_def str_num_printable)
  moreover from Cons.prems have "\<forall>s\<in>set ss. printable (if is_reserved s then get_price s else p)"
    by simp
  ultimately show ?case
    by (simp add: Cons.IH)
qed

lemma show_loop_fails:
  assumes "s \<in> set h" "\<not> printable (if is_reserved s then get_price s else p)"
  shows "show_loop float_repr p all_seats h = Inl DigitLimit"
  using assms
proof (induction h arbitrary: all_seats)
  case Nil
  then show ?case by simp
next
  case (Cons a as)
  show ?case
  proof (cases "printable (if is_reserved a then get_price a else p)")
    case True
    with Cons.prems have "s \<in> set as" by auto
    with Cons.IH Cons.prems(2) True show ?thesis
      by (simp add: seat_line_def Let_def str_num_printable)
  next
    case False
    then show ?thesis
      by (simp add: seat_line_def Let_def str_num_not_printable)
  qed
qed

lemma show_seats_state: "snd (show_seats float_repr h day_of_week base_price) = h"
  by (simp add: show_seats_def split: sum.splits)

lemma show_seats_unprintable:
  assumes "(if day_of_week = 2 then mul_float base_price lit_0_8 else Inr base_price) = Inr p"
    and "s \<in> set h"
    and "\<not> printable (if is_reserved s then get_price s else p)"
  shows "show_seats float_repr h day_of_week base_price = (Inl DigitLimit, h)"
  using assms(1) show_loop_fails [OF assms(2,3)]
  by (simp add: show_seats_def)

section \<open>State after a failure\<close>

text \<open>
  \<open>cancel_reservation\<close> and \<open>add_seat\<close> raise before any change. \<open>reserve_seat\<close> raises
  before any change when the seat is missing or reserved, and when a discount applies to a
  base price that has no float value, since the multiplication raises first.
\<close>

lemma cancel_state:
  "fst (cancel_reservation h n r) = Inl err \<Longrightarrow> snd (cancel_reservation h n r) = h"
  by (auto simp: cancel_reservation_def Let_def split: option.splits if_splits)

lemma add_seat_state:
  "fst (add_seat h s) = Inl err \<Longrightarrow> snd (add_seat h s) = h"
  by (auto simp: add_seat_def split: if_splits)

lemma reserve_seat_state:
  assumes "fst (reserve_seat h number row age day_of_week base_price) = Inl err"
    and "day_of_week = 2 \<or> age > 65 \<or> convertible base_price"
  shows "snd (reserve_seat h number row age day_of_week base_price) = h"
proof (cases "search_seat h number row")
  case None
  then show ?thesis by (simp add: reserve_seat_def)
next
  case (Some i)
  show ?thesis
  proof (cases "is_reserved (h ! i)")
    case True
    with Some show ?thesis by (simp add: reserve_seat_def)
  next
    case False
    show ?thesis
    proof (cases "to_float base_price")
      case (Inl e)
      with assms(2) have "day_of_week = 2 \<or> age > 65"
        by (auto simp: convertible_def)
      with Some False Inl show ?thesis
        by (auto simp: reserve_seat_def mul_float_def)
    next
      case (Inr f)
      from reserve_seat_result [OF Some False Inr, of age day_of_week] assms(1)
      show ?thesis by simp
    qed
  qed
qed

text \<open>
  With the day of the week given in the call, the weekday at which the class was defined
  plays no part.
\<close>

lemma explicit_day_of_week:
  "call_reserve_seat w1 h number row age (Some d) base_price =
     call_reserve_seat w2 h number row age (Some d) base_price \<and>
   call_show_seats w1 float_repr h (Some d) base_price =
     call_show_seats w2 float_repr h (Some d) base_price"
  by (simp add: call_reserve_seat_def call_show_seats_def)

section \<open>The properties of the specification\<close>

text \<open>
  C1 (amended). For every hall, reserving an existing seat that is not reserved, with an
  age, a day of the week and a base price that has a float value \<open>f\<close> (every float, and every
  integer of magnitude below \<open>2\<^sup>1\<^sup>0\<^sup>2\<^sup>4 - 2\<^sup>9\<^sup>7\<^sup>0\<close>, by \<open>convertible_int\<close>), succeeds: the price is the base price itself
  when no discount applies, and otherwise the float \<open>f\<close> multiplied by 0.8 when the day is 2
  and by 0.7 when the age is above 65; the seat gets this price and becomes reserved, no
  other seat changes, and the returned text names the seat and gives the price with two
  decimals. With base price 10, age 80 and a day other than 2 the stored price is the
  float 7.0, of exact value 7, printed as 7.00.
\<close>

theorem reserve_seat_success:
  assumes "search_seat h number row = Some i"
    and "\<not> is_reserved (h ! i)"
    and "to_float base_price = Inr f"
  shows "reserve_seat h number row age day_of_week base_price =
           (Inr (''Seat '' @ decimal number @ '' in row '' @ decimal row @
                 '' has been reserved. Price: '' @
                 format_float_2f (discounted day_of_week age f) @ euro),
            h[i := (h ! i)\<lparr>get_price :=
                                (if day_of_week = 2 \<or> age > 65
                                 then PFloat (discounted day_of_week age f)
                                 else base_price),
                             is_reserved := True\<rparr>]) \<and>
         (base_price = PInt 10 \<and> age = 80 \<and> day_of_week \<noteq> 2 \<longrightarrow>
            get_price (snd (reserve_seat h number row age day_of_week base_price) ! i) =
              PFloat (Finite False 7881299347898368 (- 50)) \<and>
            num_value (get_price (snd (reserve_seat h number row age day_of_week base_price) ! i))
              = Some 7 \<and>
            fst (reserve_seat h number row age day_of_week base_price) =
              Inr (''Seat '' @ decimal number @ '' in row '' @ decimal row @
                   '' has been reserved. Price: 7.00'' @ euro))"
proof -
  from assms(1) have i: "i < length h"
    by (simp add: search_seat_Some)
  note general = reserve_seat_result [OF assms, of age day_of_week]
  have "get_price (snd (reserve_seat h number row age day_of_week base_price) ! i) =
          PFloat (Finite False 7881299347898368 (- 50)) \<and>
        fst (reserve_seat h number row age day_of_week base_price) =
          Inr (''Seat '' @ decimal number @ '' in row '' @ decimal row @
               '' has been reserved. Price: 7.00'' @ euro)"
    if "base_price = PInt 10" "age = 80" "day_of_week \<noteq> 2"
  proof -
    from that assms(3) have "f = Finite False 5629499534213120 (- 49)"
      by (simp add: ten_to_float)
    with that have "discounted day_of_week age f = Finite False 7881299347898368 (- 50)"
      by (simp add: discounted_def ten_times_0_7)
    with that i show ?thesis
      unfolding general by (simp add: seven_text)
  qed
  with general show ?thesis
    by (simp add: seven_value)
qed

theorem reserve_seat_success_witness:
  "reserve_seat [fresh_seat 1 1, fresh_seat 2 1] 2 1 80 2 (PInt 10) =
     (Inr (''Seat 2 in row 1 has been reserved. Price: 5.60'' @ euro),
      [fresh_seat 1 1,
       \<lparr>get_number = 2, get_row = 1, is_reserved = True,
          get_price = PFloat (Finite False 6305039478318694 (- 50))\<rparr>]) \<and>
   get_price (snd (reserve_seat [fresh_seat 1 1, fresh_seat 2 1] 2 1 80 1 (PInt 10)) ! Suc 0) =
     PFloat (Finite False 7881299347898368 (- 50))"
proof -
  let ?h = "[fresh_seat 1 1, fresh_seat 2 1]"
  have found: "search_seat ?h 2 1 = Some (Suc 0)"
    by (simp add: fresh_seat_def)
  have free: "\<not> is_reserved (?h ! Suc 0)"
    by (simp add: fresh_seat_def)
  note wednesday = reserve_seat_success [OF found free ten_to_float, of 80 2, THEN conjunct1]
  note tuesday = reserve_seat_success [OF found free ten_to_float, of 80 1, THEN conjunct2]
  have "reserve_seat ?h 2 1 80 2 (PInt 10) =
     (Inr (''Seat 2 in row 1 has been reserved. Price: 5.60'' @ euro),
      [fresh_seat 1 1,
       \<lparr>get_number = 2, get_row = 1, is_reserved = True,
          get_price = PFloat (Finite False 6305039478318694 (- 50))\<rparr>])"
    unfolding wednesday by code_simp
  moreover have "PInt 10 = PInt 10 \<and> (80::int) = 80 \<and> (1::int) \<noteq> 2"
    by simp
  with tuesday
  have "get_price (snd (reserve_seat ?h 2 1 80 1 (PInt 10)) ! Suc 0) =
     PFloat (Finite False 7881299347898368 (- 50))"
    by blast
  ultimately show ?thesis by blast
qed

text \<open>
  The claim as first stated, for every base price, fails for an integer beyond the range
  of a float: in the hall of one seat, on a Wednesday, the multiplication by 0.8 raises
  OverflowError for the base price \<open>2\<^sup>1\<^sup>0\<^sup>2\<^sup>4\<close>.
\<close>

theorem reserve_seat_overflow:
  "CinemaHall_init (PInt 1) (PInt 1) = Inr [fresh_seat 1 1] \<and>
   fst (reserve_seat [fresh_seat 1 1] 1 1 30 2 (PInt (2 ^ 1024))) = Inl OverflowError"
proof -
  have "CinemaHall_init (PInt 1) (PInt 1) = Inr [fresh_seat 1 1]"
    by (simp add: CinemaHall_init_ok)
  moreover have "fst (reserve_seat [fresh_seat 1 1] 1 1 30 2 (PInt (2 ^ 1024))) =
      Inl OverflowError"
    by code_simp
  ultimately show ?thesis by blast
qed

text \<open>
  C2. For all integers \<open>rows > 0\<close> and \<open>seats_per_row > 0\<close> the constructor succeeds with
  \<open>rows * seats_per_row\<close> seats, namely the seats 1 to \<open>seats_per_row\<close> of row 1, then those
  of row 2, and so on, each one not reserved and with price 0, ascending by row and then
  number; with \<open>rows \<le> 0\<close> or \<open>seats_per_row \<le> 0\<close>, or with an argument that is not an
  integer, it fails with one of the errors the specification calls InvalidArgument.
\<close>

theorem CinemaHall_init_seats:
  "(0 < rows \<and> 0 < seats_per_row \<longrightarrow>
      (\<exists>h. CinemaHall_init (PInt rows) (PInt seats_per_row) = Inr h \<and>
           h = concat (map (\<lambda>r. map (\<lambda>n. fresh_seat n r) [1..seats_per_row]) [1..rows]) \<and>
           length h = nat (rows * seats_per_row) \<and>
           (\<forall>s\<in>set h. \<not> is_reserved s \<and> get_price s = PInt 0) \<and>
           sorted_seats h \<and> distinct_seats h)) \<and>
   (rows \<le> 0 \<or> seats_per_row \<le> 0 \<longrightarrow>
      (\<exists>err. CinemaHall_init (PInt rows) (PInt seats_per_row) = Inl err \<and>
             invalid_argument err)) \<and>
   (\<exists>err. CinemaHall_init (PFloat x) a = Inl err \<and> invalid_argument err) \<and>
   (\<exists>err. CinemaHall_init a (PFloat x) = Inl err \<and> invalid_argument err)"
proof -
  let ?grid = "concat (map (\<lambda>r. map (\<lambda>n. fresh_seat n r) [1..seats_per_row]) [1..rows])"
  have strict: "sorted_wrt seat_before ?grid"
    by (rule sorted_grid) simp
  have "length ?grid = nat (rows * seats_per_row)" if "0 < rows" "0 < seats_per_row"
    using that by (simp add: length_grid nat_mult_distrib)
  moreover have "\<forall>s\<in>set ?grid. \<not> is_reserved s \<and> get_price s = PInt 0"
    using grid_fresh by blast
  moreover note strict_sorted_seats [OF strict]
  moreover note CinemaHall_init_ok [of rows seats_per_row]
  ultimately have valid: "0 < rows \<and> 0 < seats_per_row \<longrightarrow>
      (\<exists>h. CinemaHall_init (PInt rows) (PInt seats_per_row) = Inr h \<and>
           h = ?grid \<and>
           length h = nat (rows * seats_per_row) \<and>
           (\<forall>s\<in>set h. \<not> is_reserved s \<and> get_price s = PInt 0) \<and>
           sorted_seats h \<and> distinct_seats h)"
    by blast
  have "rows \<le> 0 \<or> seats_per_row \<le> 0 \<longrightarrow>
      (\<exists>err. CinemaHall_init (PInt rows) (PInt seats_per_row) = Inl err \<and>
             invalid_argument err)"
    using CinemaHall_init_invalid [of "PInt rows" "PInt seats_per_row"] by simp
  moreover have "\<exists>err. CinemaHall_init (PFloat x) a = Inl err \<and> invalid_argument err"
    using CinemaHall_init_invalid [of "PFloat x" a] by simp
  moreover have "\<exists>err. CinemaHall_init a (PFloat x) = Inl err \<and> invalid_argument err"
    using CinemaHall_init_invalid [of a "PFloat x"] by simp
  ultimately show ?thesis
    using valid by blast
qed

theorem CinemaHall_init_seats_witness:
  "CinemaHall_init (PInt 2) (PInt 3) =
     Inr [fresh_seat 1 1, fresh_seat 2 1, fresh_seat 3 1,
          fresh_seat 1 2, fresh_seat 2 2, fresh_seat 3 2] \<and>
   sorted_seats [fresh_seat 1 1, fresh_seat 2 1, fresh_seat 3 1,
          fresh_seat 1 2, fresh_seat 2 2, fresh_seat 3 2] \<and>
   CinemaHall_init (PInt 0) (PInt 3) = Inl InvalidRows \<and>
   CinemaHall_init (PInt 2) (PInt (- 1)) = Inl InvalidSeatsPerRow"
proof -
  have grid: "concat (map (\<lambda>r. map (\<lambda>n. fresh_seat n r) [1..3]) [1..2]) =
      [fresh_seat 1 1, fresh_seat 2 1, fresh_seat 3 1,
       fresh_seat 1 2, fresh_seat 2 2, fresh_seat 3 2]"
    by code_simp
  have "(0::int) < 2 \<and> (0::int) < 3" by simp
  with CinemaHall_init_seats [of 2 3]
  have "\<exists>h. CinemaHall_init (PInt 2) (PInt 3) = Inr h \<and>
      h = concat (map (\<lambda>r. map (\<lambda>n. fresh_seat n r) [1..3]) [1..2]) \<and> sorted_seats h"
    by blast
  then have "CinemaHall_init (PInt 2) (PInt 3) =
       Inr [fresh_seat 1 1, fresh_seat 2 1, fresh_seat 3 1,
            fresh_seat 1 2, fresh_seat 2 2, fresh_seat 3 2] \<and>
     sorted_seats [fresh_seat 1 1, fresh_seat 2 1, fresh_seat 3 1,
            fresh_seat 1 2, fresh_seat 2 2, fresh_seat 3 2]"
    unfolding grid by blast
  moreover have "CinemaHall_init (PInt 0) (PInt 3) = Inl InvalidRows"
    by (simp add: CinemaHall_init_def)
  moreover have "CinemaHall_init (PInt 2) (PInt (- 1)) = Inl InvalidSeatsPerRow"
    by (simp add: CinemaHall_init_def)
  ultimately show ?thesis by blast
qed

text \<open>
  C3. For every hall with at least one seat and every seat \<open>s\<close>, \<open>add_seat\<close> makes its checks
  in this order: it fails with DuplicateSeat when a seat of the hall has the number and
  the row of \<open>s\<close>; else with RowOutOfRange when the row of \<open>s\<close> is greater than the row of
  the last seat of the list (in an ordered hall such a seat is never a duplicate); else
  with NonSequentialSeat when the number of \<open>s\<close> is not the number of the last seat of the
  whole list plus 1; and else it succeeds and puts \<open>s\<close> after the seats that are not after
  it and right before the first seat that is, so that an ordered hall stays ordered. In
  the hall of 5 rows of 5 seats, adding seat 6 of row 3 succeeds and gives 26 seats.
\<close>

theorem add_seat_cases:
  assumes "h \<noteq> []"
  shows "(registered h s \<longleftrightarrow>
            (\<exists>a\<in>set h. get_number a = get_number s \<and> get_row a = get_row s)) \<and>
         (registered h s \<longrightarrow> add_seat h s = (Inl DuplicateSeat, h)) \<and>
         (\<not> registered h s \<and> get_row (last h) < get_row s \<longrightarrow>
            add_seat h s = (Inl (RowOutOfRange (get_row (hd h)) (get_row (last h))), h)) \<and>
         (sorted_seats h \<and> get_row (last h) < get_row s \<longrightarrow> \<not> registered h s) \<and>
         (\<not> registered h s \<and> get_row s \<le> get_row (last h) \<and>
          get_number s \<noteq> get_number (last h) + 1 \<longrightarrow>
            add_seat h s = (Inl (NonSequentialSeat (get_number (last h) + 1)), h)) \<and>
         (\<not> registered h s \<and> get_row s \<le> get_row (last h) \<and>
          get_number s = get_number (last h) + 1 \<longrightarrow>
            (\<exists>xs ys. h = xs @ ys \<and> (\<forall>a\<in>set xs. \<not> seat_before s a) \<and>
               (ys \<noteq> [] \<longrightarrow> seat_before s (hd ys)) \<and>
               add_seat h s =
                 (Inr (''Seat '' @ decimal (get_number s) @ '' in row '' @
                       decimal (get_row s) @ '' has been added.''),
                  xs @ s # ys)) \<and>
            (sorted_seats h \<longrightarrow> sorted_seats (snd (add_seat h s)))) \<and>
         (\<exists>h5. CinemaHall_init (PInt 5) (PInt 5) = Inr h5 \<and>
            Seat_init (PInt 6) (PInt 3) = Inr (fresh_seat 6 3) \<and>
            fst (add_seat h5 (fresh_seat 6 3)) = Inr ''Seat 6 in row 3 has been added.'' \<and>
            length (snd (add_seat h5 (fresh_seat 6 3))) = 26)"
proof -
  have duplicate: "registered h s \<longrightarrow> add_seat h s = (Inl DuplicateSeat, h)"
    by (simp add: add_seat_def)
  have row: "\<not> registered h s \<and> get_row (last h) < get_row s \<longrightarrow>
      add_seat h s = (Inl (RowOutOfRange (get_row (hd h)) (get_row (last h))), h)"
    using assms by (simp add: add_seat_def)
  have sorted_row: "sorted_seats h \<and> get_row (last h) < get_row s \<longrightarrow> \<not> registered h s"
    using sorted_last_row [of h] by (fastforce simp: registered_iff)
  have number: "\<not> registered h s \<and> get_row s \<le> get_row (last h) \<and>
      get_number s \<noteq> get_number (last h) + 1 \<longrightarrow>
      add_seat h s = (Inl (NonSequentialSeat (get_number (last h) + 1)), h)"
    using assms by (simp add: add_seat_def)
  have inserted: "\<exists>xs ys. h = xs @ ys \<and> (\<forall>a\<in>set xs. \<not> seat_before s a) \<and>
      (ys \<noteq> [] \<longrightarrow> seat_before s (hd ys)) \<and>
      add_seat h s =
        (Inr (''Seat '' @ decimal (get_number s) @ '' in row '' @
              decimal (get_row s) @ '' has been added.''),
         xs @ s # ys)"
    if ok: "\<not> registered h s" "get_row s \<le> get_row (last h)"
      "get_number s = get_number (last h) + 1"
  proof -
    let ?p = "find_position h s"
    have "h = take ?p h @ drop ?p h" by simp
    moreover have "\<forall>a\<in>set (take ?p h). \<not> seat_before s a"
      using find_position_take by blast
    moreover have "drop ?p h \<noteq> [] \<longrightarrow> seat_before s (hd (drop ?p h))"
      using find_position_drop [of h s] by (simp add: hd_drop_conv_nth)
    moreover from ok have "add_seat h s =
        (Inr (''Seat '' @ decimal (get_number s) @ '' in row '' @
              decimal (get_row s) @ '' has been added.''),
         take ?p h @ s # drop ?p h)"
      by (intro add_seat_insert) simp_all
    ultimately show ?thesis by blast
  qed
  have example: "\<exists>h5. CinemaHall_init (PInt 5) (PInt 5) = Inr h5 \<and>
      Seat_init (PInt 6) (PInt 3) = Inr (fresh_seat 6 3) \<and>
      fst (add_seat h5 (fresh_seat 6 3)) = Inr ''Seat 6 in row 3 has been added.'' \<and>
      length (snd (add_seat h5 (fresh_seat 6 3))) = 26"
  proof -
    let ?h5 = "concat (map (\<lambda>r. map (\<lambda>n. fresh_seat n r) [1..5]) [1..5])"
    have "CinemaHall_init (PInt 5) (PInt 5) = Inr ?h5"
      by (simp add: CinemaHall_init_ok)
    moreover have "Seat_init (PInt 6) (PInt 3) = Inr (fresh_seat 6 3)"
      by (simp add: Seat_init_ok)
    moreover have "fst (add_seat ?h5 (fresh_seat 6 3)) = Inr ''Seat 6 in row 3 has been added.''"
      by code_simp
    moreover have "length (snd (add_seat ?h5 (fresh_seat 6 3))) = 26"
      by code_simp
    ultimately show ?thesis by blast
  qed
  have success: "\<not> registered h s \<and> get_row s \<le> get_row (last h) \<and>
      get_number s = get_number (last h) + 1 \<longrightarrow>
        (\<exists>xs ys. h = xs @ ys \<and> (\<forall>a\<in>set xs. \<not> seat_before s a) \<and>
           (ys \<noteq> [] \<longrightarrow> seat_before s (hd ys)) \<and>
           add_seat h s =
             (Inr (''Seat '' @ decimal (get_number s) @ '' in row '' @
                   decimal (get_row s) @ '' has been added.''),
              xs @ s # ys)) \<and>
        (sorted_seats h \<longrightarrow> sorted_seats (snd (add_seat h s)))"
  proof (intro impI conjI)
    assume "\<not> registered h s \<and> get_row s \<le> get_row (last h) \<and>
      get_number s = get_number (last h) + 1"
    then show "\<exists>xs ys. h = xs @ ys \<and> (\<forall>a\<in>set xs. \<not> seat_before s a) \<and>
           (ys \<noteq> [] \<longrightarrow> seat_before s (hd ys)) \<and>
           add_seat h s =
             (Inr (''Seat '' @ decimal (get_number s) @ '' in row '' @
                   decimal (get_row s) @ '' has been added.''),
              xs @ s # ys)"
      by (intro inserted) simp_all
  next
    assume "sorted_seats h"
    then show "sorted_seats (snd (add_seat h s))" by (rule add_seat_sorted)
  qed
  show ?thesis
    by (intro conjI) (fact registered_iff duplicate row sorted_row number success example)+
qed

theorem add_seat_cases_witness:
  "add_seat [fresh_seat 1 1, fresh_seat 2 1] (fresh_seat 1 1) =
     (Inl DuplicateSeat, [fresh_seat 1 1, fresh_seat 2 1]) \<and>
   add_seat [fresh_seat 1 1, fresh_seat 2 1] (fresh_seat 3 2) =
     (Inl (RowOutOfRange 1 1), [fresh_seat 1 1, fresh_seat 2 1]) \<and>
   add_seat [fresh_seat 1 1, fresh_seat 2 1] (fresh_seat 5 1) =
     (Inl (NonSequentialSeat 3), [fresh_seat 1 1, fresh_seat 2 1]) \<and>
   sorted_seats (snd (add_seat [fresh_seat 1 1, fresh_seat 2 1] (fresh_seat 3 1)))"
proof -
  let ?h = "[fresh_seat 1 1, fresh_seat 2 1]"
  have ne: "?h \<noteq> []" by simp
  have "registered ?h (fresh_seat 1 1)"
    by (simp add: fresh_seat_def)
  with add_seat_cases [OF ne, of "fresh_seat 1 1"]
  have "add_seat ?h (fresh_seat 1 1) = (Inl DuplicateSeat, ?h)" by blast
  moreover have "\<not> registered ?h (fresh_seat 3 2) \<and>
      get_row (last ?h) < get_row (fresh_seat 3 2)"
    by (simp add: fresh_seat_def)
  with add_seat_cases [OF ne, of "fresh_seat 3 2"]
  have "add_seat ?h (fresh_seat 3 2) =
      (Inl (RowOutOfRange (get_row (hd ?h)) (get_row (last ?h))), ?h)" by blast
  then have "add_seat ?h (fresh_seat 3 2) = (Inl (RowOutOfRange 1 1), ?h)"
    by (simp add: fresh_seat_def)
  moreover have "\<not> registered ?h (fresh_seat 5 1) \<and>
      get_row (fresh_seat 5 1) \<le> get_row (last ?h) \<and>
      get_number (fresh_seat 5 1) \<noteq> get_number (last ?h) + 1"
    by (simp add: fresh_seat_def)
  with add_seat_cases [OF ne, of "fresh_seat 5 1"]
  have "add_seat ?h (fresh_seat 5 1) =
      (Inl (NonSequentialSeat (get_number (last ?h) + 1)), ?h)" by blast
  then have "add_seat ?h (fresh_seat 5 1) = (Inl (NonSequentialSeat 3), ?h)"
    by (simp add: fresh_seat_def)
  moreover have "\<not> registered ?h (fresh_seat 3 1) \<and>
      get_row (fresh_seat 3 1) \<le> get_row (last ?h) \<and>
      get_number (fresh_seat 3 1) = get_number (last ?h) + 1"
    by (simp add: fresh_seat_def)
  moreover have "sorted_seats ?h"
    by (simp add: sorted_seats_def seat_before_def fresh_seat_def)
  ultimately show ?thesis
    using add_seat_cases [OF ne, of "fresh_seat 3 1", THEN conjunct2, THEN conjunct2,
        THEN conjunct2, THEN conjunct2, THEN conjunct2, THEN conjunct1]
    by blast
qed

text \<open>
  C4. In every hall that a constructor built and any sequence of reserve, cancel and add
  calls has changed, whether they succeeded or raised, the seats are ascending by row and
  then number, and no two seats share number and row. In particular \<open>add_seat\<close> keeps
  both properties.
\<close>

theorem hall_invariants:
  "(CinemaHall_init rows seats_per_row = Inr h0 \<longrightarrow>
      sorted_seats (run h0 ops) \<and> distinct_seats (run h0 ops)) \<and>
   (sorted_seats h \<and> distinct_seats h \<longrightarrow>
      sorted_seats (snd (add_seat h s)) \<and> distinct_seats (snd (add_seat h s)))"
  using CinemaHall_init_invariants run_invariants add_seat_sorted add_seat_distinct
  by blast

theorem hall_invariants_witness:
  "sorted_seats
     (run [fresh_seat 1 1, fresh_seat 2 1, fresh_seat 1 2, fresh_seat 2 2]
        [Reserve 2 1 70 2 (PInt 10), AddSeat (fresh_seat 3 1), Cancel 2 1,
         AddSeat (fresh_seat 3 2), AddSeat (fresh_seat 3 2)]) \<and>
   distinct_seats
     (run [fresh_seat 1 1, fresh_seat 2 1, fresh_seat 1 2, fresh_seat 2 2]
        [Reserve 2 1 70 2 (PInt 10), AddSeat (fresh_seat 3 1), Cancel 2 1,
         AddSeat (fresh_seat 3 2), AddSeat (fresh_seat 3 2)]) \<and>
   run [fresh_seat 1 1, fresh_seat 2 1, fresh_seat 1 2, fresh_seat 2 2]
        [Reserve 2 1 70 2 (PInt 10), AddSeat (fresh_seat 3 1), Cancel 2 1,
         AddSeat (fresh_seat 3 2), AddSeat (fresh_seat 3 2)] =
     [fresh_seat 1 1, fresh_seat 2 1, fresh_seat 3 1, fresh_seat 1 2, fresh_seat 2 2,
      fresh_seat 3 2]"
proof -
  let ?h = "[fresh_seat 1 1, fresh_seat 2 1, fresh_seat 1 2, fresh_seat 2 2]"
  let ?ops = "[Reserve 2 1 70 2 (PInt 10), AddSeat (fresh_seat 3 1), Cancel 2 1,
         AddSeat (fresh_seat 3 2), AddSeat (fresh_seat 3 2)]"
  have "CinemaHall_init (PInt 2) (PInt 2) = Inr ?h"
    by code_simp
  with hall_invariants [of "PInt 2" "PInt 2" ?h ?ops]
  have "sorted_seats (run ?h ?ops) \<and> distinct_seats (run ?h ?ops)"
    by blast
  moreover have "run ?h ?ops =
     [fresh_seat 1 1, fresh_seat 2 1, fresh_seat 3 1, fresh_seat 1 2, fresh_seat 2 2,
      fresh_seat 3 2]"
    by code_simp
  ultimately show ?thesis by blast
qed

text \<open>
  C5. \<open>reserve_seat\<close> fails with NotFound exactly when the hall has no seat with the number
  and the row, and with AlreadyReserved exactly when the seat found is reserved, which in
  a hall without duplicates is to say that the hall has a reserved seat with the number
  and the row; in that case the whole hall, and so the price and the flag of the seat,
  is left as it was.
\<close>

theorem reserve_seat_failures:
  "(fst (reserve_seat h number row age day_of_week base_price) = Inl SeatNotFound \<longleftrightarrow>
      \<not> (\<exists>s\<in>set h. get_number s = number \<and> get_row s = row)) \<and>
   (fst (reserve_seat h number row age day_of_week base_price) = Inl AlreadyReserved \<longleftrightarrow>
      (\<exists>i. search_seat h number row = Some i \<and> is_reserved (h ! i))) \<and>
   (distinct_seats h \<longrightarrow>
      (fst (reserve_seat h number row age day_of_week base_price) = Inl AlreadyReserved \<longleftrightarrow>
         (\<exists>s\<in>set h. get_number s = number \<and> get_row s = row \<and> is_reserved s))) \<and>
   (fst (reserve_seat h number row age day_of_week base_price) = Inl AlreadyReserved \<longrightarrow>
      snd (reserve_seat h number row age day_of_week base_price) = h)"
proof -
  have "fst (reserve_seat h number row age day_of_week base_price) = Inl SeatNotFound \<longleftrightarrow>
      \<not> (\<exists>s\<in>set h. get_number s = number \<and> get_row s = row)"
    unfolding reserve_seat_not_found search_seat_None_iff by blast
  moreover note reserve_seat_already [of h number row age day_of_week base_price]
  moreover have "distinct_seats h \<longrightarrow>
      (fst (reserve_seat h number row age day_of_week base_price) = Inl AlreadyReserved \<longleftrightarrow>
         (\<exists>s\<in>set h. get_number s = number \<and> get_row s = row \<and> is_reserved s))"
    unfolding reserve_seat_already using first_match_reserved by blast
  moreover note reserve_seat_already_state [of h number row age day_of_week base_price]
  ultimately show ?thesis by blast
qed

theorem reserve_seat_failures_witness:
  "fst (reserve_seat [fresh_seat 1 1, (fresh_seat 2 1)\<lparr>is_reserved := True\<rparr>] 3 1 30 0 (PInt 10))
     = Inl SeatNotFound \<and>
   fst (reserve_seat [fresh_seat 1 1, (fresh_seat 2 1)\<lparr>is_reserved := True\<rparr>] 2 1 30 0 (PInt 10))
     = Inl AlreadyReserved \<and>
   snd (reserve_seat [fresh_seat 1 1, (fresh_seat 2 1)\<lparr>is_reserved := True\<rparr>] 2 1 30 0 (PInt 10))
     = [fresh_seat 1 1, (fresh_seat 2 1)\<lparr>is_reserved := True\<rparr>]"
proof -
  let ?h = "[fresh_seat 1 1, (fresh_seat 2 1)\<lparr>is_reserved := True\<rparr>]"
  have absent: "\<not> (\<exists>s\<in>set ?h. get_number s = 3 \<and> get_row s = 1)"
    by (simp add: fresh_seat_def)
  have distinct: "distinct_seats ?h"
    by (simp add: distinct_seats_def fresh_seat_def)
  have present: "\<exists>s\<in>set ?h. get_number s = 2 \<and> get_row s = 1 \<and> is_reserved s"
    by (simp add: fresh_seat_def)
  from absent reserve_seat_failures [of ?h 3 1 30 0 "PInt 10"]
  have "fst (reserve_seat ?h 3 1 30 0 (PInt 10)) = Inl SeatNotFound" by blast
  moreover from distinct present reserve_seat_failures [of ?h 2 1 30 0 "PInt 10"]
  have "fst (reserve_seat ?h 2 1 30 0 (PInt 10)) = Inl AlreadyReserved" by blast
  moreover from this reserve_seat_failures [of ?h 2 1 30 0 "PInt 10"]
  have "snd (reserve_seat ?h 2 1 30 0 (PInt 10)) = ?h" by blast
  ultimately show ?thesis by blast
qed

text \<open>
  C6. \<open>cancel_reservation\<close> fails with NotFound when the hall has no seat with the number
  and the row, fails with NotReserved when the seat found is not reserved, and otherwise
  makes that seat not reserved, sets its price to 0, leaves the other seats as they were
  and returns the text of the confirmation.
\<close>

theorem cancel_reservation_cases:
  "(\<not> (\<exists>s\<in>set h. get_number s = number \<and> get_row s = row) \<longrightarrow>
      cancel_reservation h number row = (Inl SeatNotFound, h)) \<and>
   (search_seat h number row = Some i \<and> \<not> is_reserved (h ! i) \<longrightarrow>
      cancel_reservation h number row = (Inl NotReserved, h)) \<and>
   (search_seat h number row = Some i \<and> is_reserved (h ! i) \<longrightarrow>
      cancel_reservation h number row =
        (Inr (''Reservation for seat '' @ decimal number @ '' in row '' @ decimal row @
              '' has been canceled.''),
         h[i := (h ! i)\<lparr>is_reserved := False, get_price := PInt 0\<rparr>]))"
proof -
  have "search_seat h number row = None"
    if "\<not> (\<exists>s\<in>set h. get_number s = number \<and> get_row s = row)"
    using that unfolding search_seat_None_iff by blast
  moreover have "i < length h" if "search_seat h number row = Some i"
    using search_seat_Some [OF that] by simp
  ultimately show ?thesis
    by (auto simp: cancel_reservation_def set_reserved_def set_price_def Let_def)
qed

theorem cancel_reservation_cases_witness:
  "cancel_reservation [fresh_seat 1 1, (fresh_seat 2 1)\<lparr>is_reserved := True, get_price := PInt 10\<rparr>] 3 1
     = (Inl SeatNotFound,
        [fresh_seat 1 1, (fresh_seat 2 1)\<lparr>is_reserved := True, get_price := PInt 10\<rparr>]) \<and>
   cancel_reservation [fresh_seat 1 1, (fresh_seat 2 1)\<lparr>is_reserved := True, get_price := PInt 10\<rparr>] 1 1
     = (Inl NotReserved,
        [fresh_seat 1 1, (fresh_seat 2 1)\<lparr>is_reserved := True, get_price := PInt 10\<rparr>]) \<and>
   cancel_reservation [fresh_seat 1 1, (fresh_seat 2 1)\<lparr>is_reserved := True, get_price := PInt 10\<rparr>] 2 1
     = (Inr ''Reservation for seat 2 in row 1 has been canceled.'',
        [fresh_seat 1 1, fresh_seat 2 1])"
proof -
  let ?h = "[fresh_seat 1 1, (fresh_seat 2 1)\<lparr>is_reserved := True, get_price := PInt 10\<rparr>]"
  have absent: "\<not> (\<exists>s\<in>set ?h. get_number s = 3 \<and> get_row s = 1)"
    by (simp add: fresh_seat_def)
  have first: "search_seat ?h 1 1 = Some 0" "\<not> is_reserved (?h ! 0)"
    by (simp_all add: fresh_seat_def)
  have second: "search_seat ?h 2 1 = Some (Suc 0)" "is_reserved (?h ! Suc 0)"
    by (simp_all add: fresh_seat_def)
  have msg: "''Reservation for seat '' @ decimal 2 @ '' in row '' @ decimal 1 @
      '' has been canceled.'' = ''Reservation for seat 2 in row 1 has been canceled.''"
    by code_simp
  have state: "?h[Suc 0 := (?h ! Suc 0)\<lparr>is_reserved := False, get_price := PInt 0\<rparr>] =
      [fresh_seat 1 1, fresh_seat 2 1]"
    by (simp add: fresh_seat_def)
  from absent cancel_reservation_cases [of ?h 3 1]
  have "cancel_reservation ?h 3 1 = (Inl SeatNotFound, ?h)" by blast
  moreover from first cancel_reservation_cases [of ?h 1 1 0]
  have "cancel_reservation ?h 1 1 = (Inl NotReserved, ?h)" by blast
  moreover from second cancel_reservation_cases [of ?h 2 1 "Suc 0"]
  have "cancel_reservation ?h 2 1 =
      (Inr (''Reservation for seat '' @ decimal 2 @ '' in row '' @ decimal 1 @
            '' has been canceled.''),
       ?h[Suc 0 := (?h ! Suc 0)\<lparr>is_reserved := False, get_price := PInt 0\<rparr>])"
    by blast
  ultimately show ?thesis
    unfolding msg state by blast
qed

text \<open>
  C7. The claim is that a call that fails leaves the hall as it was. \<open>reserve_seat\<close> breaks it:
  it sets the price and the flag of the seat before it formats the returned text, and the
  format \<^verbatim>\<open>.2f\<close> raises OverflowError for an integer price beyond the range of a float. In the
  hall of one seat, with no discount and the base price \<open>2\<^sup>1\<^sup>0\<^sup>2\<^sup>4\<close>, the call raises and the
  seat is left reserved at that price. (\<open>reserve_seat_state\<close>, \<open>cancel_state\<close> and
  \<open>add_seat_state\<close> above cover every other failure.)
\<close>

theorem reserve_seat_not_atomic:
  "reserve_seat [fresh_seat 1 1] 1 1 30 0 (PInt (2 ^ 1024)) =
     (Inl OverflowError,
      [\<lparr>get_number = 1, get_row = 1, is_reserved = True, get_price = PInt (2 ^ 1024)\<rparr>])"
  by code_simp

text \<open>
  C8 (amended). For every hall, \<open>show_seats\<close> returns the lines of the seats in the order
  of the list, joined by newlines, when on a Wednesday (day 2) the base price has a float
  value \<open>f\<close>, and every price to print is a float or an integer of at most 4300 digits:
  each line gives the number, the row, Reserved or Available, and a price, which is the
  stored price for a reserved seat and, for any other seat, the base price, multiplied by
  0.8 when the day is 2. A hall with no seats gives the empty text.
\<close>

theorem show_seats_lines:
  assumes "day_of_week = 2 \<Longrightarrow> to_float base_price = Inr f"
    and "\<forall>s\<in>set h. printable (if is_reserved s then get_price s
                               else if day_of_week = 2 then PFloat (fmul f lit_0_8)
                               else base_price)"
  shows "show_seats float_repr h day_of_week base_price =
           (Inr (join [CHR 0x0A]
              (map (\<lambda>s. ''Seat '' @ decimal (get_number s) @ '', row '' @
                         decimal (get_row s) @ '': '' @
                         (if is_reserved s then ''Reserved'' else ''Available'') @
                         '', Price: '' @
                         num_text float_repr
                           (if is_reserved s then get_price s
                            else if day_of_week = 2 then PFloat (fmul f lit_0_8)
                            else base_price) @
                         euro) h)), h) \<and>
         show_seats float_repr [] day_of_week base_price = (Inr [], [])"
proof (cases "day_of_week = 2")
  case True
  with assms(1) have "mul_float base_price lit_0_8 = Inr (PFloat (fmul f lit_0_8))"
    by (simp add: mul_float_ok)
  moreover from True assms(2)
  have "\<forall>s\<in>set h. printable (if is_reserved s then get_price s else PFloat (fmul f lit_0_8))"
    by auto
  ultimately show ?thesis
    using True by (simp add: show_seats_def show_loop_lines)
next
  case False
  with assms(2)
  have "\<forall>s\<in>set h. printable (if is_reserved s then get_price s else base_price)"
    by auto
  with False show ?thesis
    by (simp add: show_seats_def show_loop_lines)
qed

theorem show_seats_lines_witness:
  "show_seats (\<lambda>x. ''8.0'')
     [(fresh_seat 1 1)\<lparr>is_reserved := True, get_price := PInt 10\<rparr>, fresh_seat 2 1] 2 (PInt 10) =
     (Inr (''Seat 1, row 1: Reserved, Price: 10'' @ euro @ [CHR 0x0A] @
           ''Seat 2, row 1: Available, Price: 8.0'' @ euro),
      [(fresh_seat 1 1)\<lparr>is_reserved := True, get_price := PInt 10\<rparr>, fresh_seat 2 1])"
proof -
  let ?h = "[(fresh_seat 1 1)\<lparr>is_reserved := True, get_price := PInt 10\<rparr>, fresh_seat 2 1]"
  let ?f = "Finite False 5629499534213120 (- 49)"
  have ten: "(2::int) = 2 \<Longrightarrow> to_float (PInt 10) = Inr ?f"
    by (rule ten_to_float)
  have prices: "\<forall>s\<in>set ?h. printable (if is_reserved s then get_price s
                               else if (2::int) = 2 then PFloat (fmul ?f lit_0_8)
                               else PInt 10)"
    by (simp add: printable_small printable_float fresh_seat_def)
  have "show_seats (\<lambda>x. ''8.0'') ?h 2 (PInt 10) =
      (Inr (join [CHR 0x0A]
         (map (\<lambda>s. ''Seat '' @ decimal (get_number s) @ '', row '' @
                    decimal (get_row s) @ '': '' @
                    (if is_reserved s then ''Reserved'' else ''Available'') @
                    '', Price: '' @
                    num_text (\<lambda>x. ''8.0'')
                      (if is_reserved s then get_price s
                       else if (2::int) = 2 then PFloat (fmul ?f lit_0_8)
                       else PInt 10) @
                    euro) ?h)), ?h)"
    using show_seats_lines [OF ten prices, where float_repr = "\<lambda>x. ''8.0''"]
    by (rule conjunct1)
  also have "\<dots> =
     (Inr (''Seat 1, row 1: Reserved, Price: 10'' @ euro @ [CHR 0x0A] @
           ''Seat 2, row 1: Available, Price: 8.0'' @ euro), ?h)"
    by code_simp
  finally show ?thesis .
qed

text \<open>
  The claim as first stated, for every base price, fails in the hall of one seat: on a
  Wednesday for an integer beyond the range of a float, \<open>2\<^sup>1\<^sup>0\<^sup>2\<^sup>4\<close>, since the multiplication
  by 0.8 raises OverflowError; and on a Monday for an integer of 4301 digits, \<open>10\<^sup>4\<^sup>3\<^sup>0\<^sup>0\<close>,
  since \<^verbatim>\<open>str\<close> raises ValueError.
\<close>

theorem show_seats_overflow:
  "fst (show_seats (\<lambda>x. []) [fresh_seat 1 1] 2 (PInt (2 ^ 1024))) = Inl OverflowError \<and>
   fst (show_seats (\<lambda>x. []) [fresh_seat 1 1] 0 (PInt (10 ^ max_str_digits))) = Inl DigitLimit"
proof -
  have "fst (show_seats (\<lambda>x. []) [fresh_seat 1 1] 2 (PInt (2 ^ 1024))) = Inl OverflowError"
    by code_simp
  moreover
  have "fst (show_seats (\<lambda>x. []) [fresh_seat 1 1] 0 (PInt (10 ^ max_str_digits))) =
      Inl DigitLimit"
    by (simp add: show_seats_def seat_line_def fresh_seat_def str_num_not_printable
        not_printable_limit)
  ultimately show ?thesis by blast
qed

text \<open>
  C9. The claim is that no default for the day of the week is taken from the clock when the
  class is defined. The code has such a default: a call that leaves the day out uses the
  weekday at which the class was defined. The same call in the same hall returns the
  price 8.00 when the class was defined on a Wednesday and 10.00 when it was defined on a
  Tuesday, whatever the day of the call.
\<close>

theorem default_day_fixed_at_definition:
  "fst (call_reserve_seat 2 [fresh_seat 5 3] 5 3 25 None None) =
     Inr (''Seat 5 in row 3 has been reserved. Price: 8.00'' @ euro) \<and>
   fst (call_reserve_seat 1 [fresh_seat 5 3] 5 3 25 None None) =
     Inr (''Seat 5 in row 3 has been reserved. Price: 10.00'' @ euro)"
  by code_simp

text \<open>
  C10. \<open>show_seats\<close> changes nothing: after the call, with the arguments given or left out,
  the hall is the list of seats it was, with the same numbers, rows, flags and prices.
\<close>

theorem show_seats_read_only:
  "snd (show_seats float_repr h day_of_week base_price) = h \<and>
   snd (call_show_seats startup_weekday float_repr h day_of_week' base_price') = h"
  by (simp add: show_seats_state call_show_seats_def)

end
